theory Spec2Isabelle
  imports Main "HOL-Library.Word"
begin

unbundle bit_operations_syntax

section \<open>Script classes to access Mifare cards (mifare.js)\<close>

subsection \<open>Numbers, bytes and the bitwise operators of the script language\<close>

text \<open>
  A script Number that holds an integer is an \<open>int\<close>. The bitwise operators
  \<^verbatim>\<open>& | ^ ~ << >>\<close> first convert their operands to 32-bit integers and give a
  32-bit result, so everything between two such operators is a \<open>32 word\<close>;
  \<open>ToInt32\<close> is the conversion in, \<open>sint\<close> reads the (signed) result back as a
  Number. The shift count of \<^verbatim>\<open><<\<close> and \<^verbatim>\<open>>>\<close> is taken modulo 32, and
  \<^verbatim>\<open>>>\<close> is the arithmetic shift. The sum of 32-bit results that is at once fed
  to another bitwise operator is the sum of the words, since \<open>ToInt32\<close> of the
  exact sum is the sum modulo \<open>2 ^ 32\<close>.
\<close>

type_synonym u8 = "8 word"
type_synonym int32 = "32 word"

definition ToInt32 :: "int \<Rightarrow> int32" where
  "ToInt32 n = word_of_int n"

definition shift_count :: "int \<Rightarrow> nat" where
  "shift_count n = nat (n mod 32)"

definition js_shl :: "int32 \<Rightarrow> int \<Rightarrow> int32" where
  "js_shl x n = push_bit (shift_count n) x"

definition js_shr :: "int32 \<Rightarrow> int \<Rightarrow> int32" where
  "js_shr x n = signed_drop_bit (shift_count n) x"

subsection \<open>ByteString and ByteBuffer primitives used by the script\<close>

text \<open>
  Modelled from the spec: the ByteString and ByteBuffer classes belong to the
  scripting platform, not to this file. A ByteString is a list of bytes. The
  primitives are fixed-length big-endian encoding and decoding of integers,
  concatenation (\<open>@\<close>) and slicing; a slice that reaches beyond the end of the
  string fails, as does a method call on a block that was never cached
  (\<open>undefined\<close>).
\<close>

datatype error =
    GPError int          \<comment> \<open>status word not in the list of accepted status words\<close>
  | AssertionError       \<comment> \<open>a failed \<^verbatim>\<open>assert\<close>\<close>
  | TypeError            \<comment> \<open>method call on \<^verbatim>\<open>undefined\<close>\<close>
  | IndexError           \<comment> \<open>slice outside the ByteString\<close>

text \<open>\<^verbatim>\<open>d.bytes(offset, count)\<close> and \<^verbatim>\<open>d.bytes(offset)\<close>.\<close>

definition bytes2 :: "u8 list \<Rightarrow> nat \<Rightarrow> nat \<Rightarrow> error + u8 list" where
  "bytes2 d offset count =
     (if offset + count \<le> length d then Inr (take count (drop offset d)) else Inl IndexError)"

definition bytes1 :: "u8 list \<Rightarrow> nat \<Rightarrow> error + u8 list" where
  "bytes1 d offset =
     (if offset \<le> length d then Inr (drop offset d) else Inl IndexError)"

text \<open>\<^verbatim>\<open>toUnsigned()\<close>: the bytes read as one big-endian unsigned integer.\<close>

definition toUnsigned :: "u8 list \<Rightarrow> int" where
  "toUnsigned bs = foldl (\<lambda>acc b. acc * 256 + uint b) 0 bs"

text \<open>\<^verbatim>\<open>ByteString.valueOf(value, length)\<close>: \<open>value\<close> as \<open>length\<close> big-endian bytes.\<close>

primrec valueOf :: "int \<Rightarrow> nat \<Rightarrow> u8 list" where
  "valueOf v 0 = []"
| "valueOf v (Suc n) = valueOf (v div 256) n @ [word_of_int v]"

text \<open>\<^verbatim>\<open>data.byteAt(i)\<close> is the byte as a Number between 0 and 255.\<close>

definition byteAt :: "u8 \<Rightarrow> int" where
  "byteAt b = uint b"

text \<open>\<^verbatim>\<open>bb.append(n)\<close> for a Number appends the one byte \<open>n\<close>.\<close>

definition byte_of :: "int \<Rightarrow> u8" where
  "byte_of n = word_of_int n"

subsection \<open>Mifare.crc8\<close>

text \<open>
  One pass of the inner loop body: \<^verbatim>\<open>msb = crc & 0x80; crc = (crc << 1) & 0xFF;
  if (msb) crc ^= polynom\<close>.
\<close>

definition polynom :: int32 where
  "polynom = 0x1d"

definition crc8_round :: "int32 \<Rightarrow> int32" where
  "crc8_round crc =
     (let msb = crc AND 0x80;
          crc' = js_shl crc 1 AND 0xFF
      in if msb \<noteq> 0 then crc' XOR polynom else crc')"

text \<open>The inner \<^verbatim>\<open>for (var b = 0; b < 8; b++)\<close> loop, counted down.\<close>

primrec crc8_rounds :: "nat \<Rightarrow> int32 \<Rightarrow> int32" where
  "crc8_rounds 0 crc = crc"
| "crc8_rounds (Suc b) crc = crc8_rounds b (crc8_round crc)"

text \<open>The outer loop over the bytes of \<open>data\<close>, with the running \<open>crc\<close>.\<close>

primrec crc8_loop :: "int32 \<Rightarrow> u8 list \<Rightarrow> int32" where
  "crc8_loop crc [] = crc"
| "crc8_loop crc (x # xs) = crc8_loop (crc8_rounds 8 (crc XOR ToInt32 (byteAt x))) xs"

definition crc8 :: "u8 list \<Rightarrow> int" where
  "crc8 data = sint (crc8_loop 0xC7 data)"

text \<open>
  The algorithm as the specification words it, on bytes: start from \<open>0xC7\<close>;
  for each input byte, XOR it into \<open>crc\<close>, then eight rounds of: test the high
  bit, shift left by one within 8 bits, and XOR in \<open>0x1D\<close> if the tested bit
  was set.
\<close>

definition spec_round :: "u8 \<Rightarrow> u8" where
  "spec_round c = (if bit c 7 then push_bit 1 c XOR 0x1D else push_bit 1 c)"

definition spec_crc8 :: "u8 list \<Rightarrow> u8" where
  "spec_crc8 data = foldl (\<lambda>c b. (spec_round ^^ 8) (c XOR b)) 0xC7 data"

text \<open>The reference vector of the source's commented-out self test.\<close>

definition crc8_ref :: "u8 list" where
  "crc8_ref =
     [0x01, 0x01, 0x08, 0x01, 0x08, 0x01, 0x08, 0x00, 0x00, 0x00, 0x00, 0x00, 0x00, 0x04, 0x00,
      0x03, 0x10, 0x03, 0x10, 0x02, 0x10, 0x02, 0x10, 0x00, 0x00, 0x00, 0x00, 0x00, 0x00, 0x11,
      0x30]"


subsection \<open>The reader transport\<close>

text \<open>
  Modelled from the spec: \<^verbatim>\<open>card.sendApdu(cla, ins, p1, p2, data-or-Le, [accepted
  status words])\<close> is the platform's transport, not part of this file. It sends
  one command, returns the response data, leaves the status word in
  \<^verbatim>\<open>card.SW\<close>, and signals failure when the status word is not in the accepted
  set. A command is recorded with the arguments the script passes; the fifth
  argument is either command data or the expected length.
\<close>

datatype apdu_body = Data "u8 list" | Le int

record apdu =
  cla :: int
  ins :: int
  p1 :: int
  p2 :: int
  body :: apdu_body

text \<open>
  The reader and the card in its field answer each command with response data
  and a status word; the answer may depend on every command sent before.
\<close>

type_synonym reader = "apdu list \<Rightarrow> apdu \<Rightarrow> u8 list \<times> int"

text \<open>
  The card object: the commands sent so far, in order, and the status word of
  the last one (\<^verbatim>\<open>card.SW\<close>).
\<close>

record card =
  sent :: "apdu list"
  SW :: int

text \<open>
  With a list of accepted status words, a status word outside the list raises
  an error after the exchange has taken place; without a list nothing is
  checked.
\<close>

definition sendApdu :: "reader \<Rightarrow> apdu \<Rightarrow> int list option \<Rightarrow> card \<Rightarrow> (error + u8 list) \<times> card" where
  "sendApdu rd a accepted cd =
     (let (rsp, sw) = rd (sent cd) a;
          cd' = \<lparr>sent = sent cd @ [a], SW = sw\<rparr>
      in case accepted of
           None \<Rightarrow> (Inr rsp, cd')
         | Some sws \<Rightarrow> if sw \<in> set sws then (Inr rsp, cd') else (Inl (GPError sw), cd'))"

subsection \<open>Class Mifare\<close>

text \<open>
  The key type is documented as "must be either Mifare.KEY_A or Mifare.KEY_B";
  \<open>keytype_code\<close> gives the two identifiers \<open>0x60\<close> and \<open>0x61\<close>.
\<close>

datatype keytype = KEY_A | KEY_B

fun keytype_code :: "keytype \<Rightarrow> int" where
  "keytype_code KEY_A = 0x60"
| "keytype_code KEY_B = 0x61"

definition PUBLICKEYS :: "u8 list list" where
  "PUBLICKEYS =
     [[0xFF, 0xFF, 0xFF, 0xFF, 0xFF, 0xFF],
      [0xA0, 0xA1, 0xA2, 0xA3, 0xA4, 0xA5],
      [0xB0, 0xB1, 0xB2, 0xB3, 0xB4, 0xB5],
      [0xD3, 0xF7, 0xD3, 0xF7, 0xD3, 0xF7]]"

text \<open>The Load Key command \<open>Mifare.loadKey\<close> sends for a key id and a key.\<close>

definition loadKey_apdu :: "int \<Rightarrow> u8 list \<Rightarrow> apdu" where
  "loadKey_apdu keyid key =
     (if keyid = 0x60 \<or> keyid = 0x61
      then \<lparr>cla = 0xFF, ins = 0x82, p1 = 0x00, p2 = keyid, body = Data key\<rparr>
      else \<lparr>cla = 0xFF, ins = 0x82, p1 = 0x20, p2 = keyid, body = Data key\<rparr>)"

definition loadKey :: "reader \<Rightarrow> int \<Rightarrow> u8 list \<Rightarrow> card \<Rightarrow> (error + unit) \<times> card" where
  "loadKey rd keyid key cd =
     (if length key \<noteq> 6 then (Inl AssertionError, cd)
      else case sendApdu rd (loadKey_apdu keyid key) (Some [0x9000]) cd of
             (Inl e, cd') \<Rightarrow> (Inl e, cd')
           | (Inr _, cd') \<Rightarrow> (Inr (), cd'))"

text \<open>\<^verbatim>\<open>sendApdu(0xFF, 0xB0, block >> 8, block & 0xFF, 16, [0x9000])\<close>\<close>

definition readBlock_apdu :: "int \<Rightarrow> apdu" where
  "readBlock_apdu block =
     \<lparr>cla = 0xFF, ins = 0xB0, p1 = sint (js_shr (ToInt32 block) 8),
      p2 = sint (ToInt32 block AND 0xFF), body = Le 16\<rparr>"

definition readBlock :: "reader \<Rightarrow> int \<Rightarrow> card \<Rightarrow> (error + u8 list) \<times> card" where
  "readBlock rd block cd = sendApdu rd (readBlock_apdu block) (Some [0x9000]) cd"

text \<open>
  The payload \<open>Mifare.authenticate\<close> builds in its ByteBuffer, and the General
  Authenticate command that carries it.
\<close>

definition authenticate_payload :: "int \<Rightarrow> keytype \<Rightarrow> int \<Rightarrow> u8 list" where
  "authenticate_payload block kt keyid =
     [byte_of 0x01] @ valueOf block 2 @ [byte_of (keytype_code kt)] @
     (if keyid \<noteq> 0x60 \<and> keyid \<noteq> 0x61 then [byte_of keyid] else [byte_of 0x01])"

definition authenticate_apdu :: "int \<Rightarrow> keytype \<Rightarrow> int \<Rightarrow> apdu" where
  "authenticate_apdu block kt keyid =
     \<lparr>cla = 0xFF, ins = 0x86, p1 = 0x00, p2 = 0x00,
      body = Data (authenticate_payload block kt keyid)\<rparr>"

definition Mifare_authenticate ::
    "reader \<Rightarrow> int \<Rightarrow> keytype \<Rightarrow> int \<Rightarrow> card \<Rightarrow> (error + bool) \<times> card" where
  "Mifare_authenticate rd block kt keyid cd =
     (case sendApdu rd (authenticate_apdu block kt keyid) None cd of
        (Inl e, cd') \<Rightarrow> (Inl e, cd')
      | (Inr _, cd') \<Rightarrow> (Inr (SW cd' = 0x9000), cd'))"

subsection \<open>Class Sector\<close>

text \<open>
  A sector holds the card object it is bound to, its number, the blocks read
  so far and the two key-id slots (\<^verbatim>\<open>this.keyid = [0, 1]\<close>, indexed by
  \<^verbatim>\<open>keytype - Mifare.KEY_A\<close>, so one slot per key type).
\<close>

record sector =
  mifare :: card
  no :: int
  blocks :: "int \<rightharpoonup> u8 list"
  keyid :: "keytype \<Rightarrow> int"

definition newSector :: "card \<Rightarrow> int \<Rightarrow> sector" where
  "newSector cd n =
     \<lparr>mifare = cd, no = n, blocks = Map.empty,
      keyid = (\<lambda>kt. case kt of KEY_A \<Rightarrow> 0 | KEY_B \<Rightarrow> 1)\<rparr>"

definition setKeyId :: "int \<Rightarrow> keytype option \<Rightarrow> sector \<Rightarrow> sector" where
  "setKeyId kid kt s =
     (let kt' = (case kt of None \<Rightarrow> KEY_A | Some k \<Rightarrow> k)
      in s\<lparr>keyid := (keyid s)(kt' := kid)\<rparr>)"

text \<open>\<^verbatim>\<open>(this.no << 2) + block\<close>\<close>

definition blockoffs :: "sector \<Rightarrow> int \<Rightarrow> int" where
  "blockoffs s block = sint (js_shl (ToInt32 (no s)) 2) + block"

definition read :: "reader \<Rightarrow> int \<Rightarrow> sector \<Rightarrow> (error + u8 list) \<times> sector" where
  "read rd block s =
     (if \<not> block \<ge> 0 then (Inl AssertionError, s)
      else if \<not> block \<le> 3 then (Inl AssertionError, s)
      else case readBlock rd (blockoffs s block) (mifare s) of
             (Inl e, cd') \<Rightarrow> (Inl e, s\<lparr>mifare := cd'\<rparr>)
           | (Inr d, cd') \<Rightarrow> (Inr d, s\<lparr>mifare := cd', blocks := (blocks s)(block \<mapsto> d)\<rparr>))"

definition Sector_authenticate :: "reader \<Rightarrow> int \<Rightarrow> keytype \<Rightarrow> sector \<Rightarrow> (error + bool) \<times> sector" where
  "Sector_authenticate rd block kt s =
     (case Mifare_authenticate rd (blockoffs s block) kt (keyid s kt) (mifare s) of
        (r, cd') \<Rightarrow> (r, s\<lparr>mifare := cd'\<rparr>))"

text \<open>
  The loop of \<open>authenticatePublic\<close> from index \<open>i\<close> on: load candidate \<open>i\<close>,
  authenticate, return \<open>i\<close> on success; \<open>-1\<close> once the table is exhausted.
\<close>

function authenticatePublic_from ::
    "reader \<Rightarrow> int \<Rightarrow> keytype \<Rightarrow> nat \<Rightarrow> sector \<Rightarrow> (error + int) \<times> sector" where
  "authenticatePublic_from rd block kt i s =
     (if i < length PUBLICKEYS then
        (case loadKey rd (keyid s kt) (PUBLICKEYS ! i) (mifare s) of
           (Inl e, cd') \<Rightarrow> (Inl e, s\<lparr>mifare := cd'\<rparr>)
         | (Inr _, cd') \<Rightarrow>
             (case Sector_authenticate rd block kt (s\<lparr>mifare := cd'\<rparr>) of
                (Inl e, s') \<Rightarrow> (Inl e, s')
              | (Inr ok, s') \<Rightarrow>
                  if ok then (Inr (int i), s')
                  else authenticatePublic_from rd block kt (i + 1) s'))
      else (Inr (- 1), s))"
  by pat_completeness auto
termination
  by (relation "measure (\<lambda>(rd, block, kt, i, s). length PUBLICKEYS - i)") auto

declare authenticatePublic_from.simps [simp del]

definition authenticatePublic :: "reader \<Rightarrow> int \<Rightarrow> keytype \<Rightarrow> sector \<Rightarrow> (error + int) \<times> sector" where
  "authenticatePublic rd block kt s = authenticatePublic_from rd block kt 0 s"

text \<open>
  The loop of \<open>readAll\<close> from index \<open>i\<close> on, with the ByteBuffer \<open>bb\<close> filled so
  far.
\<close>

function readAll_from :: "reader \<Rightarrow> int \<Rightarrow> u8 list \<Rightarrow> sector \<Rightarrow> (error + u8 list) \<times> sector" where
  "readAll_from rd i bb s =
     (if i < 4 then
        (case read rd i s of
           (Inl e, s') \<Rightarrow> (Inl e, s')
         | (Inr d, s') \<Rightarrow> readAll_from rd (i + 1) (bb @ d) s')
      else (Inr bb, s))"
  by pat_completeness auto
termination
  by (relation "measure (\<lambda>(rd, i, bb, s). nat (4 - i))") auto

declare readAll_from.simps [simp del]

definition readAll :: "reader \<Rightarrow> keytype option \<Rightarrow> sector \<Rightarrow> (error + u8 list) \<times> sector" where
  "readAll rd keytype s =
     (let kt = (case keytype of None \<Rightarrow> KEY_A | Some k \<Rightarrow> k)
      in case Sector_authenticate rd 0 kt s of
           (Inl e, s') \<Rightarrow> (Inl e, s')
         | (Inr _, s') \<Rightarrow> readAll_from rd 0 [] s')"

subsection \<open>Access conditions in the sector trailer\<close>

text \<open>\<^verbatim>\<open>Sector.MASK\<close>; an index outside the table reads \<open>undefined\<close>, which is 0 under \<^verbatim>\<open>&=\<close>.\<close>

definition MASK :: "int list" where
  "MASK = [0x00E0EE, 0x00D0DD, 0x00B0BB, 0x007077]"

definition MASK_at :: "int \<Rightarrow> int32" where
  "MASK_at block =
     (if 0 \<le> block \<and> block < int (length MASK) then ToInt32 (MASK ! nat block) else 0)"

text \<open>
  The expression \<open>getACforBlock\<close> returns for the 24-bit field \<open>c\<close>:
  \<^verbatim>\<open>(((c >> (12 + block)) & 0x01) << 2) + (((c >> (0 + block)) & 0x01) << 1)
  + ((c >> (4 + block)) & 0x01)\<close>.
\<close>

definition ac_of_field :: "int \<Rightarrow> int \<Rightarrow> int" where
  "ac_of_field c block =
     sint (js_shl (js_shr (ToInt32 c) (12 + block) AND 0x01) 2) +
     sint (js_shl (js_shr (ToInt32 c) (0 + block) AND 0x01) 1) +
     sint (js_shr (ToInt32 c) (4 + block) AND 0x01)"

definition getACforBlock :: "int \<Rightarrow> sector \<Rightarrow> error + int" where
  "getACforBlock block s =
     (case blocks s 3 of
        None \<Rightarrow> Inl TypeError
      | Some d \<Rightarrow>
          (case bytes2 d 6 3 of
             Inl e \<Rightarrow> Inl e
           | Inr f \<Rightarrow> Inr (ac_of_field (toUnsigned f) block)))"

text \<open>
  The three assignments to \<open>c\<close> in \<open>setACforBlock\<close>: masking, the new bits,
  the complement nibbles.
\<close>

definition field_with_ac :: "int \<Rightarrow> int \<Rightarrow> int \<Rightarrow> int" where
  "field_with_ac c block ac =
     (let c1 = ToInt32 c AND MASK_at block;
          c2 = c1 OR (js_shl (js_shr (ToInt32 ac) 2 AND 0x01) (12 + block) +
                      js_shl (js_shr (ToInt32 ac) 1 AND 0x01) (0 + block) +
                      js_shl (ToInt32 ac AND 0x01) (4 + block));
          c3 = c2 OR (js_shl (NOT c2 AND 0xF) 20 +
                      js_shl (NOT c2 AND 0xF0) 4 +
                      js_shl (NOT c2 AND 0xF000) 4)
      in sint c3)"

definition setACforBlock :: "int \<Rightarrow> int \<Rightarrow> sector \<Rightarrow> error + sector" where
  "setACforBlock block ac s =
     (case blocks s 3 of
        None \<Rightarrow> Inl TypeError
      | Some d \<Rightarrow>
          (case bytes2 d 6 3 of
             Inl e \<Rightarrow> Inl e
           | Inr f \<Rightarrow>
               let c = field_with_ac (toUnsigned f) block ac in
               (case bytes2 d 0 6 of
                  Inl e \<Rightarrow> Inl e
                | Inr a \<Rightarrow>
                    (case bytes1 d 9 of
                       Inl e \<Rightarrow> Inl e
                     | Inr b \<Rightarrow> Inr (s\<lparr>blocks := (blocks s)(3 \<mapsto> a @ (valueOf c 3 @ b))\<rparr>)))))"

subsection \<open>Keys and data byte in the sector trailer\<close>

definition setKeyA :: "u8 list \<Rightarrow> sector \<Rightarrow> error + sector" where
  "setKeyA key s =
     (case blocks s 3 of
        None \<Rightarrow> Inl TypeError
      | Some d \<Rightarrow>
          (case bytes1 d 6 of
             Inl e \<Rightarrow> Inl e
           | Inr b \<Rightarrow> Inr (s\<lparr>blocks := (blocks s)(3 \<mapsto> key @ b)\<rparr>)))"

definition setKeyB :: "u8 list \<Rightarrow> sector \<Rightarrow> error + sector" where
  "setKeyB key s =
     (case blocks s 3 of
        None \<Rightarrow> Inl TypeError
      | Some d \<Rightarrow>
          (case bytes2 d 0 10 of
             Inl e \<Rightarrow> Inl e
           | Inr a \<Rightarrow> Inr (s\<lparr>blocks := (blocks s)(3 \<mapsto> a @ key)\<rparr>)))"

definition setHeaderDataByte :: "u8 list \<Rightarrow> sector \<Rightarrow> error + sector" where
  "setHeaderDataByte db s =
     (case blocks s 3 of
        None \<Rightarrow> Inl TypeError
      | Some d \<Rightarrow>
          (case bytes2 d 0 9 of
             Inl e \<Rightarrow> Inl e
           | Inr a \<Rightarrow>
               (case bytes1 d 10 of
                  Inl e \<Rightarrow> Inl e
                | Inr b \<Rightarrow> Inr (s\<lparr>blocks := (blocks s)(3 \<mapsto> (a @ db) @ b)\<rparr>))))"

subsection \<open>Example data\<close>

text \<open>
  A sector trailer in transport configuration (keys \<open>FF..FF\<close>, access bytes
  \<open>FF 07 80\<close>, data byte \<open>69\<close>) and a sector 1 that has it cached.
\<close>

definition example_trailer :: "u8 list" where
  "example_trailer =
     [0xFF, 0xFF, 0xFF, 0xFF, 0xFF, 0xFF, 0xFF, 0x07, 0x80, 0x69,
      0xFF, 0xFF, 0xFF, 0xFF, 0xFF, 0xFF]"

definition example_sector :: sector where
  "example_sector = (newSector \<lparr>sent = [], SW = 0\<rparr> 1)\<lparr>blocks := [3 \<mapsto> example_trailer]\<rparr>"

text \<open>
  Readers for the examples. The first accepts every Load Key and every Read
  Binary (answering a read with 16 bytes that repeat the low address byte) and
  accepts a General Authenticate exactly when the command before it loaded the
  MAD key \<open>A0A1A2A3A4A5\<close>. The second answers every command with status word
  \<open>0x6982\<close> (security status not satisfied) and no data.
\<close>

definition example_reader :: reader where
  "example_reader h a =
     (if ins a = 0xB0 then (replicate 16 (byte_of (p2 a)), 0x9000)
      else if ins a = 0x86 then
        ([], if h \<noteq> [] \<and> body (last h) = Data [0xA0, 0xA1, 0xA2, 0xA3, 0xA4, 0xA5]
             then 0x9000 else 0x6300)
      else ([], 0x9000))"

definition locked_reader :: reader where
  "locked_reader h a = ([], 0x6982)"

text \<open>
  A third reader accepts every General Authenticate and answers every other
  command with \<open>0x6982\<close>: the key is right, the access conditions forbid
  reading.
\<close>

definition unreadable_reader :: reader where
  "unreadable_reader h a = ([], if ins a = 0x86 then 0x9000 else 0x6982)"

subsection \<open>Observing a run of authenticatePublic and of readAll\<close>

text \<open>
  The two commands of one pass of the loop of \<open>authenticatePublic\<close> for a
  candidate key; the commands on record before candidate \<open>i\<close> is tried, when
  every earlier candidate was loaded and failed to authenticate; and the status
  words the reader gives candidate \<open>i\<close> at that point.
\<close>

definition probe_apdus :: "sector \<Rightarrow> int \<Rightarrow> keytype \<Rightarrow> u8 list \<Rightarrow> apdu list" where
  "probe_apdus s block kt key =
     [loadKey_apdu (keyid s kt) key, authenticate_apdu (blockoffs s block) kt (keyid s kt)]"

definition probe_history :: "sector \<Rightarrow> int \<Rightarrow> keytype \<Rightarrow> nat \<Rightarrow> apdu list" where
  "probe_history s block kt i =
     sent (mifare s) @ concat (map (probe_apdus s block kt) (take i PUBLICKEYS))"

definition load_sw :: "reader \<Rightarrow> sector \<Rightarrow> int \<Rightarrow> keytype \<Rightarrow> nat \<Rightarrow> int" where
  "load_sw rd s block kt i =
     snd (rd (probe_history s block kt i) (loadKey_apdu (keyid s kt) (PUBLICKEYS ! i)))"

definition auth_sw :: "reader \<Rightarrow> sector \<Rightarrow> int \<Rightarrow> keytype \<Rightarrow> nat \<Rightarrow> int" where
  "auth_sw rd s block kt i =
     snd (rd (probe_history s block kt i @ [loadKey_apdu (keyid s kt) (PUBLICKEYS ! i)])
            (authenticate_apdu (blockoffs s block) kt (keyid s kt)))"

text \<open>
  The commands of a complete \<open>readAll\<close>: one General Authenticate against block
  offset 0, then Read Binary for the block offsets 0 to 3; the commands on
  record before the read of block offset \<open>k\<close>; and the reader's answer to that
  read.
\<close>

definition readAll_apdus :: "sector \<Rightarrow> keytype \<Rightarrow> apdu list" where
  "readAll_apdus s kt =
     authenticate_apdu (blockoffs s 0) kt (keyid s kt) #
     map (\<lambda>k. readBlock_apdu (blockoffs s k)) [0, 1, 2, 3]"

definition read_history :: "sector \<Rightarrow> keytype \<Rightarrow> nat \<Rightarrow> apdu list" where
  "read_history s kt k = sent (mifare s) @ take (Suc k) (readAll_apdus s kt)"

definition read_answer :: "reader \<Rightarrow> sector \<Rightarrow> keytype \<Rightarrow> nat \<Rightarrow> u8 list \<times> int" where
  "read_answer rd s kt k = rd (read_history s kt k) (readBlock_apdu (blockoffs s (int k)))"

section \<open>Properties\<close>

subsection \<open>CRC-8\<close>

lemma shl_ucast_gen:
  "push_bit k (ucast (c::u8) :: int32) AND mask 8 = ucast (push_bit k c :: u8)"
  by (rule bit_word_eqI)
    (auto simp add: bit_and_iff bit_mask_iff bit_ucast_iff bit_push_bit_iff)

lemma shl1_ucast:
  "push_bit 1 (ucast (c::u8) :: int32) AND 0xFF = ucast (push_bit 1 c :: u8)"
  using shl_ucast_gen [of 1 c] by (simp add: mask_numeral)

lemma and_single_bit:
  "(w :: 'a::len word) AND push_bit k 1 = push_bit k (of_bool (bit w k))"
  by (rule bit_word_eqI)
    (auto simp add: bit_and_iff bit_push_bit_iff bit_of_bool_iff bit_1_iff bit_exp_iff)

lemma msb_ucast: "(ucast (c::u8) AND (0x80::int32) \<noteq> 0) = bit c 7"
  using and_single_bit [of "ucast c :: int32" 7]
  by (cases "bit c 7") (simp_all add: bit_ucast_iff)

lemma crc8_round_ucast: "crc8_round (ucast (c::u8)) = ucast (spec_round c)"
proof -
  have s1: "shift_count 1 = 1" by (simp add: shift_count_def)
  have x: "(ucast (push_bit 1 c XOR (0x1D::u8)) :: int32) =
      (ucast (push_bit 1 c :: u8) XOR (0x1D :: int32))"
    by (simp only: unsigned_xor_eq) simp
  show ?thesis
    unfolding crc8_round_def spec_round_def js_shl_def polynom_def Let_def s1
      shl1_ucast msb_ucast
    using x by simp
qed

lemma crc8_rounds_ucast: "crc8_rounds n (ucast (c::u8)) = ucast ((spec_round ^^ n) c)"
  by (induction n arbitrary: c) (simp_all add: crc8_round_ucast funpow_swap1)

lemma xor_byte_ucast: "(ucast (c::u8) :: int32) XOR ToInt32 (byteAt b) = ucast (c XOR b)"
  by (simp add: ToInt32_def byteAt_def unsigned_xor_eq)

lemma crc8_loop_ucast:
  "crc8_loop (ucast (c::u8)) data =
     ucast (foldl (\<lambda>c b. (spec_round ^^ 8) (c XOR b)) c data)"
  by (induction data arbitrary: c)
    (simp_all add: xor_byte_ucast crc8_rounds_ucast del: crc8_rounds.simps)

lemma sint_ucast8: "sint (ucast (x::u8) :: int32) = uint x"
proof -
  have b: "uint x < 2 ^ 8" using uint_bounded [of x] by simp
  have "(0::int) \<le> uint x" by simp
  then have lo: "- (2 ^ 31) \<le> uint x" by (rule order_trans [rotated]) simp
  have hi: "uint x < 2 ^ 31" using b by simp
  have "sint (ucast x :: int32) = signed_take_bit 31 (uint x)"
    by (simp add: signed_ucast_eq)
  also have "\<dots> = uint x"
    using lo hi by (rule signed_take_bit_int_eq_self)
  finally show ?thesis .
qed

lemma crc8_refines: "crc8 data = uint (spec_crc8 data)"
proof -
  have "crc8_loop 0xC7 data = ucast (spec_crc8 data)"
    using crc8_loop_ucast [of "0xC7" data] by (simp add: spec_crc8_def)
  then show ?thesis by (simp add: crc8_def sint_ucast8)
qed

lemma crc8_range: "0 \<le> crc8 data \<and> crc8 data \<le> 255"
proof -
  have "uint (spec_crc8 data) < 2 ^ 8" using uint_bounded [of "spec_crc8 data"] by simp
  then show ?thesis by (simp add: crc8_refines)
qed

lemma crc8_ref_value: "crc8 crc8_ref = 0x89"
  by code_simp

text \<open>
  C4. \<open>Mifare.crc8\<close> computes the specified algorithm (start value \<open>0xC7\<close>, each
  byte XORed in, then eight rounds of test-high-bit, shift-left within 8 bits and
  conditional XOR with \<open>0x1D\<close>); its result lies between 0 and 255 for every
  input; and on the 31-byte reference vector the result is \<open>0x89\<close>.
\<close>

theorem crc8_spec_range_reference:
  "crc8 data = uint (spec_crc8 data)
   \<and> 0 \<le> crc8 data \<and> crc8 data \<le> 255
   \<and> length crc8_ref = 31 \<and> crc8 crc8_ref = 0x89"
  using crc8_refines [of data] crc8_range [of data] crc8_ref_value
  by (simp add: crc8_ref_def)

subsection \<open>Access-condition codec\<close>

lemma shr_and_1: "k < 32 \<Longrightarrow> signed_drop_bit k (w::int32) AND 1 = of_bool (bit w k)"
  by (rule bit_word_eqI) (auto simp add: bit_and_iff bit_1_iff bit_signed_drop_bit_iff bit_of_bool_iff)

lemma and_1_of_bool: "(w::int32) AND 1 = of_bool (bit w 0)"
  using shr_and_1 [of 0 w] by simp

lemma nibble_consts:
  "(0xF :: int32) = mask 4" "(0xF0 :: int32) = push_bit 4 (mask 4)" "(0xF000 :: int32) = push_bit 12 (mask 4)"
  by (simp_all add: mask_numeral)

lemma compl_sum_or:
  "push_bit 20 ((x::int32) AND 0xF) + push_bit 4 (x AND 0xF0) + push_bit 4 (x AND 0xF000)
   = (push_bit 20 (x AND 0xF) OR push_bit 4 (x AND 0xF0)) OR push_bit 4 (x AND 0xF000)"
proof -
  have 1: "push_bit 20 (x AND 0xF) + push_bit 4 (x AND 0xF0) = push_bit 20 (x AND 0xF) OR push_bit 4 (x AND 0xF0)"
    unfolding nibble_consts
    by (rule disjunctive_add) (auto simp add: bit_push_bit_iff bit_and_iff bit_mask_iff)
  have 2: "(push_bit 20 (x AND 0xF) OR push_bit 4 (x AND 0xF0)) + push_bit 4 (x AND 0xF000)
     = (push_bit 20 (x AND 0xF) OR push_bit 4 (x AND 0xF0)) OR push_bit 4 (x AND 0xF000)"
    unfolding nibble_consts
    by (rule disjunctive_add) (auto simp add: bit_push_bit_iff bit_and_iff bit_mask_iff bit_or_iff)
  show ?thesis by (simp only: 1 2)
qed

lemma bits_sum_or:
  assumes "p \<noteq> q" "p \<noteq> r" "q \<noteq> r"
  shows "push_bit p (of_bool x :: int32) + push_bit q (of_bool y) + push_bit r (of_bool z)
     = (push_bit p (of_bool x) OR push_bit q (of_bool y)) OR push_bit r (of_bool z)"
proof -
  have 1: "push_bit p (of_bool x :: int32) + push_bit q (of_bool y) = push_bit p (of_bool x) OR push_bit q (of_bool y)"
    using assms by (intro disjunctive_add) (auto simp add: bit_push_bit_iff bit_of_bool_iff)
  have 2: "(push_bit p (of_bool x :: int32) OR push_bit q (of_bool y)) + push_bit r (of_bool z)
      = (push_bit p (of_bool x) OR push_bit q (of_bool y)) OR push_bit r (of_bool z)"
    using assms by (intro disjunctive_add) (auto simp add: bit_push_bit_iff bit_of_bool_iff bit_or_iff)
  show ?thesis by (simp only: 1 2)
qed

lemma ToInt32_sint: "ToInt32 (sint w) = w"
  by (simp add: ToInt32_def)

lemma field_word:
  assumes "i \<in> {0, 1, 2, 3}"
  shows "ToInt32 (field_with_ac c i v) =
    (let a = ToInt32 v;
         c2 = (ToInt32 c AND MASK_at i) OR
              ((push_bit (nat (12 + i)) (of_bool (bit a 2)) OR push_bit (nat i) (of_bool (bit a 1))) OR
               push_bit (nat (4 + i)) (of_bool (bit a 0)))
     in c2 OR ((push_bit 20 (NOT c2 AND 0xF) OR push_bit 4 (NOT c2 AND 0xF0)) OR push_bit 4 (NOT c2 AND 0xF000)))"
proof -
  have s: "shift_count (12 + i) = nat (12 + i)" "shift_count (0 + i) = nat i" "shift_count (4 + i) = nat (4 + i)"
    "shift_count 2 = 2" "shift_count 1 = 1" "shift_count 20 = 20" "shift_count 4 = 4"
    using assms by (auto simp add: shift_count_def)
  have d: "nat (12 + i) \<noteq> nat i" "nat (12 + i) \<noteq> nat (4 + i)" "nat i \<noteq> nat (4 + i)"
    using assms by auto
  have A2: "signed_drop_bit 2 (ToInt32 v) AND 1 = of_bool (bit (ToInt32 v) 2)"
    by (rule shr_and_1) simp
  have A1: "signed_drop_bit 1 (ToInt32 v) AND 1 = of_bool (bit (ToInt32 v) 1)"
    by (rule shr_and_1) simp
  have A0: "ToInt32 v AND 1 = of_bool (bit (ToInt32 v) 0)"
    by (rule and_1_of_bool)
  show ?thesis
    apply (unfold field_with_ac_def Let_def js_shl_def js_shr_def s ToInt32_sint)
    apply (unfold A2 A1 A0 bits_sum_or [OF d] compl_sum_or)
    apply (rule refl)
    done
qed

lemma MASK_at_simps:
  "MASK_at 0 = 0xE0EE" "MASK_at 1 = 0xD0DD" "MASK_at 2 = 0xB0BB" "MASK_at 3 = 0x7077"
  by (simp_all add: MASK_at_def MASK_def ToInt32_def)

lemma field_bits_real:
  assumes "i \<in> {0, 1, 2, 3}" and "n \<in> {0, 1, 2, 3, 4, 5, 6, 7, 12, 13, 14, 15}"
  shows "bit (ToInt32 (field_with_ac c i v)) n =
     (if n = nat (12 + i) then bit (ToInt32 v) 2
      else if n = nat i then bit (ToInt32 v) 1
      else if n = nat (4 + i) then bit (ToInt32 v) 0
      else bit (ToInt32 c) n)"
  using assms
  by (elim insertE emptyE; simp add: field_word Let_def MASK_at_simps bit_simps)

lemma field_bits_compl:
  assumes "i \<in> {0, 1, 2, 3}" and "k \<in> {0, 1, 2, 3}"
  shows "bit (ToInt32 (field_with_ac c i v)) (16 + k) = (\<not> bit (ToInt32 (field_with_ac c i v)) (12 + k))"
    and "bit (ToInt32 (field_with_ac c i v)) (20 + k) = (\<not> bit (ToInt32 (field_with_ac c i v)) k)"
    and "bit (ToInt32 (field_with_ac c i v)) (8 + k) = (\<not> bit (ToInt32 (field_with_ac c i v)) (4 + k))"
  using assms
  by (elim insertE emptyE; simp add: field_word Let_def MASK_at_simps bit_simps)+

lemma field_bits_high:
  assumes "i \<in> {0, 1, 2, 3}" and "24 \<le> n"
  shows "\<not> bit (ToInt32 (field_with_ac c i v)) n"
proof (cases "n < 32")
  case False
  then show ?thesis using bit_imp_le_length [of "ToInt32 (field_with_ac c i v)" n] by auto
next
  case True
  with assms(2) have "n \<in> {24, 25, 26, 27, 28, 29, 30, 31}" by auto
  with assms(1) show ?thesis
    by (elim insertE emptyE; simp add: field_word Let_def MASK_at_simps bit_simps)
qed

lemma ac_of_field_bits:
  assumes "k \<in> {0, 1, 2, 3}"
  shows "ac_of_field c k =
     (if bit (ToInt32 c) (nat (12 + k)) then 4 else 0) +
     (if bit (ToInt32 c) (nat k) then 2 else 0) +
     (if bit (ToInt32 c) (nat (4 + k)) then 1 else 0)"
proof -
  have s: "shift_count (12 + k) = nat (12 + k)" "shift_count (0 + k) = nat k"
    "shift_count (4 + k) = nat (4 + k)" "shift_count 2 = 2" "shift_count 1 = 1"
    using assms by (auto simp add: shift_count_def)
  have lt: "nat (12 + k) < 32" "nat k < 32" "nat (4 + k) < 32"
    using assms by auto
  have v: "sint (push_bit 2 (of_bool b :: int32)) = (if b then 4 else 0)"
    "sint (push_bit 1 (of_bool b :: int32)) = (if b then 2 else 0)"
    "sint (of_bool b :: int32) = (if b then 1 else 0)" for b
    by (cases b; simp)+
  show ?thesis
    unfolding ac_of_field_def js_shl_def js_shr_def s
    by (simp only: shr_and_1 [OF lt(1)] shr_and_1 [OF lt(2)] shr_and_1 [OF lt(3)] v)
qed

lemma valueOf_3:
  "valueOf n 3 = [word_of_int (n div 256 div 256), word_of_int (n div 256), word_of_int n]"
  by (simp add: numeral_3_eq_3)

lemma toUnsigned_3: "toUnsigned [a, b, c] = uint a * 65536 + uint b * 256 + uint c"
  by (simp add: toUnsigned_def)

lemma toUnsigned_valueOf_3: "toUnsigned (valueOf n 3) = n mod 16777216"
proof -
  have u: "uint (word_of_int m :: u8) = m mod 256" for m
    by (simp add: uint_word_of_int take_bit_eq_mod)
  have 1: "n mod (256 * 65536) = 256 * (n div 256 mod 65536) + n mod 256"
    by (rule zmod_zmult2_eq) simp
  have 2: "(n div 256) mod (256 * 256) = 256 * (n div 256 div 256 mod 256) + n div 256 mod 256"
    by (rule zmod_zmult2_eq) simp
  show ?thesis
    using 1 2 by (simp add: valueOf_3 toUnsigned_3 u)
qed

lemma ToInt32_toUnsigned_valueOf:
  "ToInt32 (toUnsigned (valueOf n 3)) = take_bit 24 (ToInt32 n)"
proof -
  have "(word_of_int (take_bit 24 n) :: int32) = take_bit 24 (word_of_int n)"
    by (rule bit_word_eqI) (simp add: bit_simps)
  then show ?thesis
    by (simp add: toUnsigned_valueOf_3 ToInt32_def take_bit_eq_mod)
qed

lemma bit_field_bytes:
  assumes "i \<in> {0, 1, 2, 3}"
  shows "bit (ToInt32 (toUnsigned (valueOf (field_with_ac c i v) 3))) n = bit (ToInt32 (field_with_ac c i v)) n"
  using field_bits_high [OF assms, of n c v]
  by (cases "n < 24") (simp_all add: ToInt32_toUnsigned_valueOf bit_take_bit_iff)

lemma length_valueOf: "length (valueOf n k) = k"
  by (induction k arbitrary: n) simp_all

lemma bytes2_16:
  "length d = 16 \<Longrightarrow> bytes2 d 6 3 = Inr (take 3 (drop 6 d))"
  "length d = 16 \<Longrightarrow> bytes2 d 0 6 = Inr (take 6 d)"
  "length d = 16 \<Longrightarrow> bytes2 d 0 9 = Inr (take 9 d)"
  "length d = 16 \<Longrightarrow> bytes2 d 0 10 = Inr (take 10 d)"
  by (simp_all add: bytes2_def)

lemma bytes1_16:
  "length d = 16 \<Longrightarrow> bytes1 d 6 = Inr (drop 6 d)"
  "length d = 16 \<Longrightarrow> bytes1 d 9 = Inr (drop 9 d)"
  "length d = 16 \<Longrightarrow> bytes1 d 10 = Inr (drop 10 d)"
  by (simp_all add: bytes1_def)

lemma setACforBlock_16:
  assumes "blocks s 3 = Some d" and "length d = 16"
  shows "setACforBlock i v s =
    Inr (s\<lparr>blocks := (blocks s)(3 \<mapsto>
      take 6 d @ (valueOf (field_with_ac (toUnsigned (take 3 (drop 6 d))) i v) 3 @ drop 9 d))\<rparr>)"
  using assms by (simp add: setACforBlock_def bytes2_16 bytes1_16)

lemma getACforBlock_16:
  assumes "blocks s 3 = Some d" and "length d = 16"
  shows "getACforBlock j s = Inr (ac_of_field (toUnsigned (take 3 (drop 6 d))) j)"
  using assms by (simp add: getACforBlock_def bytes2_16)

lemma getACforBlock_after_set:
  assumes "length d = 16"
  shows "getACforBlock j (s\<lparr>blocks := (blocks s)(3 \<mapsto> take 6 d @ (valueOf c 3 @ drop 9 d))\<rparr>)
     = Inr (ac_of_field (toUnsigned (valueOf c 3)) j)"
  using assms by (simp add: getACforBlock_def bytes2_def length_valueOf)

lemma ac_bits_value:
  assumes "0 \<le> v" and "v \<le> 7"
  shows "(if bit (ToInt32 v) 2 then 4 else 0) + (if bit (ToInt32 v) 1 then 2 else 0) +
         (if bit (ToInt32 v) 0 then 1 else (0::int)) = v"
proof -
  from assms have "v \<in> {0, 1, 2, 3, 4, 5, 6, 7}" by auto
  then show ?thesis by (elim insertE emptyE; simp add: ToInt32_def)
qed

lemma block_cases: "0 \<le> (i::int) \<Longrightarrow> i \<le> 3 \<Longrightarrow> i \<in> {0, 1, 2, 3}"
  by auto

lemma real_positions:
  "k \<in> {0, 1, 2, 3} \<Longrightarrow> nat (12 + k) \<in> {0, 1, 2, 3, 4, 5, 6, 7, 12, 13, 14, 15}"
  "k \<in> {0, 1, 2, 3} \<Longrightarrow> nat k \<in> {0, 1, 2, 3, 4, 5, 6, 7, 12, 13, 14, 15}"
  "k \<in> {0, 1, 2, 3} \<Longrightarrow> nat (4 + k) \<in> {0, 1, 2, 3, 4, 5, 6, 7, 12, 13, 14, 15}"
  by auto

lemma distinct_positions:
  assumes "i \<in> {0, 1, 2, 3}"
  shows "nat i \<noteq> nat (12 + i)" "nat (4 + i) \<noteq> nat (12 + i)" "nat (4 + i) \<noteq> nat i"
  using assms by auto

lemma other_positions:
  assumes "i \<in> {0, 1, 2, 3}" and "j \<in> {0, 1, 2, 3}" and "j \<noteq> i"
  shows "nat (12 + j) \<noteq> nat (12 + i)" "nat (12 + j) \<noteq> nat i" "nat (12 + j) \<noteq> nat (4 + i)"
    "nat j \<noteq> nat (12 + i)" "nat j \<noteq> nat i" "nat j \<noteq> nat (4 + i)"
    "nat (4 + j) \<noteq> nat (12 + i)" "nat (4 + j) \<noteq> nat i" "nat (4 + j) \<noteq> nat (4 + i)"
  using assms by auto

lemma ac_of_field_same:
  assumes i: "i \<in> {0, 1, 2, 3}" and v: "0 \<le> v" "v \<le> 7"
  shows "ac_of_field (toUnsigned (valueOf (field_with_ac c i v) 3)) i = v"
proof -
  let ?r = "ToInt32 (field_with_ac c i v)"
  have b: "bit ?r (nat (12 + i)) = bit (ToInt32 v) 2"
    "bit ?r (nat i) = bit (ToInt32 v) 1"
    "bit ?r (nat (4 + i)) = bit (ToInt32 v) 0"
    using distinct_positions [OF i]
    by (simp_all add: field_bits_real [OF i real_positions(1) [OF i]]
        field_bits_real [OF i real_positions(2) [OF i]]
        field_bits_real [OF i real_positions(3) [OF i]])
  have "ac_of_field (toUnsigned (valueOf (field_with_ac c i v) 3)) i =
      (if bit (ToInt32 v) 2 then 4 else 0) + (if bit (ToInt32 v) 1 then 2 else 0) +
      (if bit (ToInt32 v) 0 then 1 else 0)"
    by (simp only: ac_of_field_bits [OF i] bit_field_bytes [OF i] b)
  also have "\<dots> = v"
    by (rule ac_bits_value [OF v])
  finally show ?thesis .
qed

lemma ac_of_field_other:
  assumes i: "i \<in> {0, 1, 2, 3}" and j: "j \<in> {0, 1, 2, 3}" and ne: "j \<noteq> i"
  shows "ac_of_field (toUnsigned (valueOf (field_with_ac c i v) 3)) j = ac_of_field c j"
proof -
  let ?r = "ToInt32 (field_with_ac c i v)"
  have b: "bit ?r (nat (12 + j)) = bit (ToInt32 c) (nat (12 + j))"
    "bit ?r (nat j) = bit (ToInt32 c) (nat j)"
    "bit ?r (nat (4 + j)) = bit (ToInt32 c) (nat (4 + j))"
    using other_positions [OF i j ne]
    by (simp_all add: field_bits_real [OF i real_positions(1) [OF j]]
        field_bits_real [OF i real_positions(2) [OF j]]
        field_bits_real [OF i real_positions(3) [OF j]])
  show ?thesis
    by (simp only: ac_of_field_bits [OF j] bit_field_bytes [OF i] b)
qed

lemma ac_of_field_after:
  assumes i: "i \<in> {0, 1, 2, 3}" and j: "j \<in> {0, 1, 2, 3}" and v: "0 \<le> v" "v \<le> 7"
  shows "ac_of_field (toUnsigned (valueOf (field_with_ac c i v) 3)) j =
     (if j = i then v else ac_of_field c j)"
  using ac_of_field_same [OF i v, of c] ac_of_field_other [OF i j, of c v]
  by (cases "j = i") simp_all

text \<open>
  C1. With a 16-byte trailer block cached, for every block index \<open>i\<close> in 0..3
  and every access condition \<open>v\<close> in 0..7, \<open>setACforBlock(i, v)\<close> succeeds, and
  afterwards \<open>getACforBlock(j)\<close> returns \<open>v\<close> for \<open>j = i\<close> and, for every other
  block index \<open>j\<close> in 0..3, what it returned before the call.
\<close>

theorem setACforBlock_getACforBlock:
  assumes "blocks s 3 = Some d" and "length d = 16"
    and "0 \<le> i" "i \<le> 3" and "0 \<le> v" "v \<le> 7" and "0 \<le> j" "j \<le> 3"
  shows "\<exists>s'. setACforBlock i v s = Inr s' \<and>
     getACforBlock j s' = (if j = i then Inr v else getACforBlock j s)"
proof -
  have i: "i \<in> {0, 1, 2, 3}" and j: "j \<in> {0, 1, 2, 3}"
    using assms by (auto intro: block_cases)
  show ?thesis
    using ac_of_field_after [OF i j assms(5,6)]
    by (simp add: setACforBlock_16 [OF assms(1,2)] getACforBlock_after_set [OF assms(2)]
        getACforBlock_16 [OF assms(1,2)])
qed

theorem setACforBlock_getACforBlock_witness:
  "\<exists>s'. setACforBlock 1 4 example_sector = Inr s' \<and>
     blocks s' 3 = Some [0xFF, 0xFF, 0xFF, 0xFF, 0xFF, 0xFF, 0xFD, 0x27, 0x80, 0x69,
                         0xFF, 0xFF, 0xFF, 0xFF, 0xFF, 0xFF] \<and>
     getACforBlock 1 s' = Inr 4 \<and>
     getACforBlock 2 s' = getACforBlock 2 example_sector"
  using setACforBlock_getACforBlock [of example_sector example_trailer 1 4 1]
    setACforBlock_getACforBlock [of example_sector example_trailer 1 4 2]
  by (simp add: setACforBlock_def example_sector_def example_trailer_def newSector_def
      bytes2_def bytes1_def toUnsigned_def field_with_ac_def MASK_at_simps js_shl_def js_shr_def
      shift_count_def ToInt32_def valueOf_3 Let_def getACforBlock_def ac_of_field_def)

lemma field_word_bytes:
  assumes "i \<in> {0, 1, 2, 3}"
  shows "ToInt32 (toUnsigned (valueOf (field_with_ac c i v) 3)) = ToInt32 (field_with_ac c i v)"
  by (rule bit_word_eqI) (simp add: bit_field_bytes [OF assms])

lemma nibble_eqI:
  assumes "\<And>k. k \<in> {0, 1, 2, 3} \<Longrightarrow> bit (x::int32) (p + k) = (\<not> bit x (q + k))"
  shows "drop_bit p x AND 0xF = NOT (drop_bit q x) AND 0xF"
proof (rule bit_word_eqI)
  fix n assume "n < LENGTH(32)"
  have m: "(0xF :: int32) = mask 4" by (simp add: mask_numeral)
  show "bit (drop_bit p x AND 0xF) n = bit (NOT (drop_bit q x) AND 0xF) n"
  proof (cases "n < 4")
    case True
    then have "n \<in> {0, 1, 2, 3}" by auto
    from assms [OF this] True show ?thesis
      unfolding m
      by (simp add: bit_and_iff bit_mask_iff bit_drop_bit_eq bit_not_iff add.commute)
  next
    case False
    then show ?thesis unfolding m by (simp add: bit_and_iff bit_mask_iff)
  qed
qed

lemma lt_32_cases:
  "n < 32 \<Longrightarrow> n \<in> {0, 1, 2, 3, 4, 5, 6, 7, 8, 9, 10, 11, 12, 13, 14, 15, 16, 17, 18, 19, 20,
     21, 22, 23, 24, 25, 26, 27, 28, 29, 30, 31::nat}"
  by simp arith

text \<open>
  C2, amended: with a 16-byte trailer block cached, a block index in 0..3 and
  any access-condition argument, after \<open>setACforBlock\<close> the 24-bit big-endian
  field in trailer bytes 6..8 obeys the redundancy law: bits 16..19 are the 4-bit complement of bits 12..15 (C1),
  bits 20..23 the complement of bits 0..3 (C2), and bits 8..11 the complement
  of bits 4..7 (C3).
\<close>

theorem setACforBlock_redundancy:
  assumes "blocks s 3 = Some d" and "length d = 16" and "0 \<le> i" "i \<le> 3"
  shows "\<exists>s' d'. setACforBlock i v s = Inr s' \<and> blocks s' 3 = Some d' \<and> length d' = 16 \<and>
     (let c = ToInt32 (toUnsigned (take 3 (drop 6 d'))) in
        drop_bit 16 c AND 0xF = NOT (drop_bit 12 c) AND 0xF \<and>
        drop_bit 20 c AND 0xF = NOT c AND 0xF \<and>
        drop_bit 8 c AND 0xF = NOT (drop_bit 4 c) AND 0xF)"
proof -
  have i: "i \<in> {0, 1, 2, 3}"
    using assms by (auto intro: block_cases)
  let ?f = "field_with_ac (toUnsigned (take 3 (drop 6 d))) i v"
  let ?d' = "take 6 d @ (valueOf ?f 3 @ drop 9 d)"
  have len: "length ?d' = 16"
    using assms(2) by (simp add: length_valueOf)
  have fld: "take 3 (drop 6 ?d') = valueOf ?f 3"
    using assms(2) by (simp add: length_valueOf)
  have n1: "drop_bit 16 (ToInt32 ?f) AND 0xF = NOT (drop_bit 12 (ToInt32 ?f)) AND 0xF"
    by (rule nibble_eqI) (rule field_bits_compl(1) [OF i])
  have n2: "drop_bit 20 (ToInt32 ?f) AND 0xF = NOT (ToInt32 ?f) AND 0xF"
    using nibble_eqI [where p = 20 and q = 0 and x = "ToInt32 ?f"] field_bits_compl(2) [OF i] by simp
  have n3: "drop_bit 8 (ToInt32 ?f) AND 0xF = NOT (drop_bit 4 (ToInt32 ?f)) AND 0xF"
    by (rule nibble_eqI) (rule field_bits_compl(3) [OF i])
  let ?s' = "s\<lparr>blocks := (blocks s)(3 \<mapsto> ?d')\<rparr>"
  have set: "setACforBlock i v s = Inr ?s'"
    by (rule setACforBlock_16 [OF assms(1,2)])
  have blk: "blocks ?s' 3 = Some ?d'"
    by simp
  have c: "ToInt32 (toUnsigned (take 3 (drop 6 ?d'))) = ToInt32 ?f"
    by (simp only: fld field_word_bytes [OF i])
  show ?thesis
    apply (rule exI [of _ ?s'])
    apply (rule exI [of _ ?d'])
    apply (simp only: Let_def c)
    apply (intro conjI set blk len n1 n2 n3)
    done
qed

theorem setACforBlock_redundancy_witness:
  "\<exists>s' d'. setACforBlock 1 4 example_sector = Inr s' \<and> blocks s' 3 = Some d' \<and>
     length d' = 16 \<and>
     (let c = ToInt32 (toUnsigned (take 3 (drop 6 d'))) in
        drop_bit 16 c AND 0xF = NOT (drop_bit 12 c) AND 0xF \<and>
        drop_bit 20 c AND 0xF = NOT c AND 0xF \<and>
        drop_bit 8 c AND 0xF = NOT (drop_bit 4 c) AND 0xF)"
  using setACforBlock_redundancy [of example_sector example_trailer 1 4]
  by (simp add: example_sector_def example_trailer_def)

text \<open>
  C2, as stated: after any call to \<open>setACforBlock\<close> with a 16-byte trailer
  block cached the field obeys the redundancy law. This fails for a block index
  outside 0..3, which \<open>setACforBlock\<close> does not reject: \<open>setACforBlock(4, 7)\<close>
  on the transport trailer stores \<open>FF 0F 10\<close>, where bits 8..11 are \<open>1111\<close>
  although bits 4..7 are \<open>0001\<close>.
\<close>

theorem setACforBlock_block4_counterexample:
  "setACforBlock 4 7 example_sector =
     Inr (example_sector\<lparr>blocks := (blocks example_sector)(3 \<mapsto>
       [0xFF, 0xFF, 0xFF, 0xFF, 0xFF, 0xFF, 0xFF, 0x0F, 0x10, 0x69,
        0xFF, 0xFF, 0xFF, 0xFF, 0xFF, 0xFF])\<rparr>) \<and>
   drop_bit 8 (ToInt32 (toUnsigned [0xFF, 0x0F, 0x10])) AND 0xF \<noteq>
     NOT (drop_bit 4 (ToInt32 (toUnsigned [0xFF, 0x0F, 0x10]))) AND 0xF"
proof -
  have b: "blocks example_sector 3 = Some example_trailer"
    by (simp add: example_sector_def)
  have l: "length example_trailer = 16"
    by (simp add: example_trailer_def)
  have m: "MASK_at 4 = 0"
    by (simp add: MASK_at_def MASK_def)
  have f: "field_with_ac (toUnsigned (take 3 (drop 6 example_trailer))) 4 7 = 0xFF0F10"
    by (simp add: example_trailer_def toUnsigned_def field_with_ac_def m js_shl_def js_shr_def
        shift_count_def ToInt32_def Let_def mask_numeral)
  have v: "valueOf 0xFF0F10 3 = [0xFF, 0x0F, 0x10]"
    by (simp add: valueOf_3)
  have d: "take 6 example_trailer @ ([0xFF, 0x0F, 0x10] @ drop 9 example_trailer) =
      [0xFF, 0xFF, 0xFF, 0xFF, 0xFF, 0xFF, 0xFF, 0x0F, 0x10, 0x69,
       0xFF, 0xFF, 0xFF, 0xFF, 0xFF, 0xFF]"
    by (simp add: example_trailer_def)
  have s: "setACforBlock 4 7 example_sector =
     Inr (example_sector\<lparr>blocks := (blocks example_sector)(3 \<mapsto>
       [0xFF, 0xFF, 0xFF, 0xFF, 0xFF, 0xFF, 0xFF, 0x0F, 0x10, 0x69,
        0xFF, 0xFF, 0xFF, 0xFF, 0xFF, 0xFF])\<rparr>)"
    by (simp only: setACforBlock_16 [OF b l] f v d)
  have n: "drop_bit 8 (ToInt32 (toUnsigned [0xFF, 0x0F, 0x10])) AND 0xF \<noteq>
     NOT (drop_bit 4 (ToInt32 (toUnsigned [0xFF, 0x0F, 0x10]))) AND 0xF"
    by (simp add: toUnsigned_def ToInt32_def)
  from s n show ?thesis by (rule conjI)
qed

text \<open>
  C3, as stated: ANDing a 24-bit field with \<open>Sector.MASK[i]\<close> changes only the
  three bits owned by block \<open>i\<close> (bits \<open>12 + i\<close>, \<open>0 + i\<close>, \<open>4 + i\<close>) and leaves
  every other bit, the complement nibbles included, unchanged. This fails:
  bit 8 of \<open>0xFFFFFF\<close> is not owned by block 0, yet the mask of block 0 clears it.
\<close>

theorem MASK_clears_complement_counterexample:
  "8 \<notin> {nat (12 + 0), nat (0 + 0), nat (4 + 0)} \<and>
   bit (ToInt32 0xFFFFFF AND MASK_at 0) 8 \<noteq> bit (ToInt32 0xFFFFFF) 8"
  by (simp add: MASK_at_simps ToInt32_def bit_simps)

text \<open>
  C3, amended: for a block index \<open>i\<close> in 0..3, ANDing with \<open>Sector.MASK[i]\<close>
  keeps exactly the bits of the three real nibbles (bits 0..7 and 12..15) that
  block \<open>i\<close> does not own; it clears the three bits owned by block \<open>i\<close> and
  every bit of the complement nibbles (bits 8..11 and 16..23) and above.
\<close>

theorem MASK_at_bits:
  assumes "0 \<le> i" and "i \<le> 3"
  shows "bit (c AND MASK_at i) n =
     (bit c n \<and> n \<in> {0..7} \<union> {12..15} \<and> n \<notin> {nat (12 + i), nat (0 + i), nat (4 + i)})"
proof (cases "n < 32")
  case False
  then have "\<not> bit c n" "\<not> bit (c AND MASK_at i) n"
    using bit_imp_le_length [of c n] bit_imp_le_length [of "c AND MASK_at i" n] by auto
  then show ?thesis by simp
next
  case True
  have i: "i \<in> {0, 1, 2, 3}"
    using assms by (auto intro: block_cases)
  from i lt_32_cases [OF True] show ?thesis
    by (elim insertE emptyE; simp add: MASK_at_simps bit_simps)
qed

theorem MASK_at_bits_witness:
  "bit ((0xFFFFFF :: int32) AND MASK_at 0) 5 \<and> \<not> bit ((0xFFFFFF :: int32) AND MASK_at 0) 4 \<and>
   \<not> bit ((0xFFFFFF :: int32) AND MASK_at 0) 8"
  using MASK_at_bits [of 0 "0xFFFFFF" 5] MASK_at_bits [of 0 "0xFFFFFF" 4]
    MASK_at_bits [of 0 "0xFFFFFF" 8]
  by simp

subsection \<open>Keys and data byte\<close>

text \<open>
  C9. With a 16-byte trailer block cached: \<open>setKeyA\<close> with a 6-byte key
  replaces bytes 0..5 by the key and leaves bytes 6..15 as they were;
  \<open>setKeyB\<close> with a 6-byte key replaces bytes 10..15 and leaves bytes 0..9;
  \<open>setHeaderDataByte\<close> with one byte replaces byte 9 and leaves bytes 0..8 and
  10..15; each time the trailer is still 16 bytes long.
\<close>

theorem trailer_setters:
  assumes "blocks s 3 = Some d" and "length d = 16" and "length key = 6" and "length db = 1"
  shows "(\<exists>s' d'. setKeyA key s = Inr s' \<and> blocks s' 3 = Some d' \<and> length d' = 16 \<and>
            take 6 d' = key \<and> drop 6 d' = drop 6 d) \<and>
         (\<exists>s' d'. setKeyB key s = Inr s' \<and> blocks s' 3 = Some d' \<and> length d' = 16 \<and>
            take 10 d' = take 10 d \<and> drop 10 d' = key) \<and>
         (\<exists>s' d'. setHeaderDataByte db s = Inr s' \<and> blocks s' 3 = Some d' \<and> length d' = 16 \<and>
            take 9 d' = take 9 d \<and> take 1 (drop 9 d') = db \<and> drop 10 d' = drop 10 d)"
  using assms
  by (simp add: setKeyA_def setKeyB_def setHeaderDataByte_def bytes1_16 bytes2_16)

theorem trailer_setters_witness:
  "(\<exists>s' d'. setKeyA [1, 2, 3, 4, 5, 6] example_sector = Inr s' \<and> blocks s' 3 = Some d' \<and>
       length d' = 16 \<and> take 6 d' = [1, 2, 3, 4, 5, 6] \<and> drop 6 d' = drop 6 example_trailer) \<and>
   (\<exists>s' d'. setKeyB [1, 2, 3, 4, 5, 6] example_sector = Inr s' \<and> blocks s' 3 = Some d' \<and>
       length d' = 16 \<and> take 10 d' = take 10 example_trailer \<and> drop 10 d' = [1, 2, 3, 4, 5, 6]) \<and>
   (\<exists>s' d'. setHeaderDataByte [0xC1] example_sector = Inr s' \<and> blocks s' 3 = Some d' \<and>
       length d' = 16 \<and> take 9 d' = take 9 example_trailer \<and> take 1 (drop 9 d') = [0xC1] \<and>
       drop 10 d' = drop 10 example_trailer)"
  using trailer_setters [of example_sector example_trailer "[1, 2, 3, 4, 5, 6]" "[0xC1]"]
  by (simp add: example_sector_def example_trailer_def)

subsection \<open>Commands sent to the reader\<close>

lemma sendApdu_checked:
  "sendApdu rd a (Some [0x9000]) cd =
     (if snd (rd (sent cd) a) = 0x9000 then Inr (fst (rd (sent cd) a))
      else Inl (GPError (snd (rd (sent cd) a))),
      \<lparr>sent = sent cd @ [a], SW = snd (rd (sent cd) a)\<rparr>)"
  by (simp add: sendApdu_def Let_def case_prod_unfold)

lemma sendApdu_unchecked:
  "sendApdu rd a None cd =
     (Inr (fst (rd (sent cd) a)), \<lparr>sent = sent cd @ [a], SW = snd (rd (sent cd) a)\<rparr>)"
  by (simp add: sendApdu_def Let_def case_prod_unfold)

lemma loadKey_result:
  assumes "length key = 6"
  shows "loadKey rd kid key cd =
     (if snd (rd (sent cd) (loadKey_apdu kid key)) = 0x9000 then Inr ()
      else Inl (GPError (snd (rd (sent cd) (loadKey_apdu kid key)))),
      \<lparr>sent = sent cd @ [loadKey_apdu kid key], SW = snd (rd (sent cd) (loadKey_apdu kid key))\<rparr>)"
  using assms by (simp add: loadKey_def sendApdu_checked)

lemma Mifare_authenticate_result:
  "Mifare_authenticate rd block kt kid cd =
     (Inr (snd (rd (sent cd) (authenticate_apdu block kt kid)) = 0x9000),
      \<lparr>sent = sent cd @ [authenticate_apdu block kt kid],
       SW = snd (rd (sent cd) (authenticate_apdu block kt kid))\<rparr>)"
  by (simp add: Mifare_authenticate_def sendApdu_unchecked)

text \<open>
  C7. For every key id and every 6-byte key, \<open>Mifare.loadKey\<close> sends exactly
  one Load Key command (class \<open>0xFF\<close>, instruction \<open>0x82\<close>, the key id as P2,
  the key as data) whose P1 is \<open>0x00\<close> (preset-slot variant) if the key id is
  \<open>0x60\<close> or \<open>0x61\<close> and \<open>0x20\<close> (standard variant) for every other key id;
  in both variants the call succeeds if the status word is \<open>0x9000\<close> and fails
  with the transport error otherwise.
\<close>

theorem loadKey_variant:
  assumes "length key = 6"
  shows "let a = \<lparr>cla = 0xFF, ins = 0x82,
                   p1 = (if kid = 0x60 \<or> kid = 0x61 then 0x00 else 0x20), p2 = kid,
                   body = Data key\<rparr>;
             sw = snd (rd (sent cd) a)
         in loadKey rd kid key cd =
              (if sw = 0x9000 then Inr () else Inl (GPError sw),
               \<lparr>sent = sent cd @ [a], SW = sw\<rparr>)"
  by (simp add: loadKey_result [OF assms] loadKey_apdu_def Let_def)

theorem loadKey_variant_witness:
  "loadKey example_reader 0x60 [1, 2, 3, 4, 5, 6] \<lparr>sent = [], SW = 0\<rparr> =
     (Inr (), \<lparr>sent = [\<lparr>cla = 0xFF, ins = 0x82, p1 = 0x00, p2 = 0x60,
                          body = Data [1, 2, 3, 4, 5, 6]\<rparr>], SW = 0x9000\<rparr>) \<and>
   loadKey locked_reader 0x01 [1, 2, 3, 4, 5, 6] \<lparr>sent = [], SW = 0\<rparr> =
     (Inl (GPError 0x6982), \<lparr>sent = [\<lparr>cla = 0xFF, ins = 0x82, p1 = 0x20, p2 = 0x01,
                          body = Data [1, 2, 3, 4, 5, 6]\<rparr>], SW = 0x6982\<rparr>)"
  using loadKey_variant [of "[1, 2, 3, 4, 5, 6]" "0x60" example_reader "\<lparr>sent = [], SW = 0\<rparr>"]
    loadKey_variant [of "[1, 2, 3, 4, 5, 6]" "0x01" locked_reader "\<lparr>sent = [], SW = 0\<rparr>"]
  by (simp add: Let_def example_reader_def locked_reader_def)

lemma valueOf_2: "valueOf n 2 = [word_of_int (n div 256), word_of_int n]"
  by (simp add: numeral_2_eq_2)

lemma toUnsigned_2: "toUnsigned [a, b] = uint a * 256 + uint b"
  by (simp add: toUnsigned_def)

lemma uint_byte_of: "0 \<le> n \<Longrightarrow> n < 256 \<Longrightarrow> uint (byte_of n) = n"
  by (simp add: byte_of_def uint_word_of_int take_bit_eq_mod)

lemma toUnsigned_address:
  assumes "0 \<le> n" and "n < 65536"
  shows "toUnsigned [byte_of (n div 256), byte_of n] = n"
proof -
  have h: "0 \<le> n div 256" "n div 256 < 256"
    using assms by auto
  have "uint (byte_of n) = n mod 256"
    by (simp add: byte_of_def uint_word_of_int take_bit_eq_mod)
  then show ?thesis
    by (simp add: toUnsigned_2 uint_byte_of [OF h])
qed

text \<open>
  C8. For every block index, key type and key id, \<open>Mifare.authenticate\<close> sends
  one General Authenticate command whose 5-byte payload is the version byte
  \<open>0x01\<close>, the block address as two big-endian bytes, the key type byte, and
  an id byte that is the key id, or \<open>0x01\<close> when the key id is \<open>0x60\<close> or
  \<open>0x61\<close>. The call always returns a boolean, true exactly when the status
  word is \<open>0x9000\<close>; no status word makes it fail.
\<close>

theorem Mifare_authenticate_payload:
  "let idb = (if kid = 0x60 \<or> kid = 0x61 then 0x01 else kid);
       pl = [0x01, byte_of (block div 256), byte_of block, byte_of (keytype_code kt), byte_of idb];
       a = \<lparr>cla = 0xFF, ins = 0x86, p1 = 0x00, p2 = 0x00, body = Data pl\<rparr>;
       sw = snd (rd (sent cd) a)
   in Mifare_authenticate rd block kt kid cd =
        (Inr (sw = 0x9000), \<lparr>sent = sent cd @ [a], SW = sw\<rparr>) \<and>
      length pl = 5 \<and>
      (0 \<le> block \<and> block < 65536 \<longrightarrow> toUnsigned [pl ! 1, pl ! 2] = block) \<and>
      uint (pl ! 3) = keytype_code kt \<and>
      (0 \<le> kid \<and> kid < 256 \<longrightarrow> uint (pl ! 4) = idb)"
proof -
  have k: "uint (byte_of (keytype_code kt)) = keytype_code kt"
    by (cases kt) (simp_all add: uint_byte_of)
  have v: "byte_of 1 = (1::u8)"
    by (simp add: byte_of_def)
  show ?thesis
    by (simp add: Let_def Mifare_authenticate_result authenticate_apdu_def
        authenticate_payload_def valueOf_2 toUnsigned_address uint_byte_of k v byte_of_def [symmetric])
qed

theorem Mifare_authenticate_payload_witness:
  "Mifare_authenticate example_reader 7 KEY_A 0x60 \<lparr>sent = [], SW = 0\<rparr> =
     (Inr False, \<lparr>sent = [\<lparr>cla = 0xFF, ins = 0x86, p1 = 0x00, p2 = 0x00,
                           body = Data [0x01, 0x00, 0x07, 0x60, 0x01]\<rparr>], SW = 0x6300\<rparr>) \<and>
   toUnsigned [0x00, 0x07] = 7 \<and> uint (0x01 :: u8) = 1"
  using Mifare_authenticate_payload [of "0x60" 7 KEY_A example_reader "\<lparr>sent = [], SW = 0\<rparr>"]
  by (simp add: Let_def example_reader_def byte_of_def)

lemma blockoffs_mifare [simp]: "blockoffs (t\<lparr>mifare := cd\<rparr>) b = blockoffs t b"
  by (simp add: blockoffs_def)

lemma blockoffs_blocks [simp]: "blockoffs (t\<lparr>blocks := bl\<rparr>) b = blockoffs t b"
  by (simp add: blockoffs_def)

lemma Sector_authenticate_result:
  "Sector_authenticate rd b kt t =
     (Inr (snd (rd (sent (mifare t)) (authenticate_apdu (blockoffs t b) kt (keyid t kt))) = 0x9000),
      t\<lparr>mifare := \<lparr>sent = sent (mifare t) @ [authenticate_apdu (blockoffs t b) kt (keyid t kt)],
                    SW = snd (rd (sent (mifare t)) (authenticate_apdu (blockoffs t b) kt (keyid t kt)))\<rparr>\<rparr>)"
  by (simp add: Sector_authenticate_def Mifare_authenticate_result)

lemma length_PUBLICKEYS: "length PUBLICKEYS = 4"
  by (simp add: PUBLICKEYS_def)

lemma length_PUBLICKEYS_nth: "i < 4 \<Longrightarrow> length (PUBLICKEYS ! i) = 6"
proof -
  assume "i < 4"
  then have "i \<in> {0, 1, 2, 3}" by auto
  then show ?thesis by (elim insertE emptyE; simp add: PUBLICKEYS_def)
qed

lemma authenticatePublic_from_step:
  assumes "i < 4"
  shows "authenticatePublic_from rd b kt i t =
     (let l = loadKey_apdu (keyid t kt) (PUBLICKEYS ! i);
          lsw = snd (rd (sent (mifare t)) l);
          au = authenticate_apdu (blockoffs t b) kt (keyid t kt);
          asw = snd (rd (sent (mifare t) @ [l]) au)
      in if lsw \<noteq> 0x9000
         then (Inl (GPError lsw), t\<lparr>mifare := \<lparr>sent = sent (mifare t) @ [l], SW = lsw\<rparr>\<rparr>)
         else if asw = 0x9000
         then (Inr (int i), t\<lparr>mifare := \<lparr>sent = sent (mifare t) @ [l, au], SW = asw\<rparr>\<rparr>)
         else authenticatePublic_from rd b kt (i + 1)
                (t\<lparr>mifare := \<lparr>sent = sent (mifare t) @ [l, au], SW = asw\<rparr>\<rparr>))"
  using assms
  by (subst authenticatePublic_from.simps)
    (simp add: length_PUBLICKEYS loadKey_result [OF length_PUBLICKEYS_nth]
      Sector_authenticate_result Let_def)

lemma authenticatePublic_from_end:
  "authenticatePublic_from rd b kt 4 t = (Inr (- 1), t)"
  by (subst authenticatePublic_from.simps) (simp add: length_PUBLICKEYS)

lemma probe_history_simps:
  "probe_history s b kt 0 = sent (mifare s)"
  "probe_history s b kt 1 = sent (mifare s) @
     [loadKey_apdu (keyid s kt) (PUBLICKEYS ! 0), authenticate_apdu (blockoffs s b) kt (keyid s kt)]"
  "probe_history s b kt 2 = sent (mifare s) @
     [loadKey_apdu (keyid s kt) (PUBLICKEYS ! 0), authenticate_apdu (blockoffs s b) kt (keyid s kt),
      loadKey_apdu (keyid s kt) (PUBLICKEYS ! 1), authenticate_apdu (blockoffs s b) kt (keyid s kt)]"
  "probe_history s b kt 3 = sent (mifare s) @
     [loadKey_apdu (keyid s kt) (PUBLICKEYS ! 0), authenticate_apdu (blockoffs s b) kt (keyid s kt),
      loadKey_apdu (keyid s kt) (PUBLICKEYS ! 1), authenticate_apdu (blockoffs s b) kt (keyid s kt),
      loadKey_apdu (keyid s kt) (PUBLICKEYS ! 2), authenticate_apdu (blockoffs s b) kt (keyid s kt)]"
  "probe_history s b kt 4 = sent (mifare s) @
     [loadKey_apdu (keyid s kt) (PUBLICKEYS ! 0), authenticate_apdu (blockoffs s b) kt (keyid s kt),
      loadKey_apdu (keyid s kt) (PUBLICKEYS ! 1), authenticate_apdu (blockoffs s b) kt (keyid s kt),
      loadKey_apdu (keyid s kt) (PUBLICKEYS ! 2), authenticate_apdu (blockoffs s b) kt (keyid s kt),
      loadKey_apdu (keyid s kt) (PUBLICKEYS ! 3), authenticate_apdu (blockoffs s b) kt (keyid s kt)]"
  by (simp_all add: probe_history_def probe_apdus_def PUBLICKEYS_def)

lemma le_4_cases: "i \<le> 4 \<Longrightarrow> i \<in> {0, 1, 2, 3, 4::nat}"
  by auto

lemma authenticatePublic_unrolled:
  "authenticatePublic rd b kt s =
     (if load_sw rd s b kt 0 \<noteq> 0x9000 then
        (Inl (GPError (load_sw rd s b kt 0)),
         s\<lparr>mifare := \<lparr>sent = probe_history s b kt 0 @ [loadKey_apdu (keyid s kt) (PUBLICKEYS ! 0)],
                       SW = load_sw rd s b kt 0\<rparr>\<rparr>)
      else if auth_sw rd s b kt 0 = 0x9000 then
        (Inr 0, s\<lparr>mifare := \<lparr>sent = probe_history s b kt 1, SW = 0x9000\<rparr>\<rparr>)
      else if load_sw rd s b kt 1 \<noteq> 0x9000 then
        (Inl (GPError (load_sw rd s b kt 1)),
         s\<lparr>mifare := \<lparr>sent = probe_history s b kt 1 @ [loadKey_apdu (keyid s kt) (PUBLICKEYS ! 1)],
                       SW = load_sw rd s b kt 1\<rparr>\<rparr>)
      else if auth_sw rd s b kt 1 = 0x9000 then
        (Inr 1, s\<lparr>mifare := \<lparr>sent = probe_history s b kt 2, SW = 0x9000\<rparr>\<rparr>)
      else if load_sw rd s b kt 2 \<noteq> 0x9000 then
        (Inl (GPError (load_sw rd s b kt 2)),
         s\<lparr>mifare := \<lparr>sent = probe_history s b kt 2 @ [loadKey_apdu (keyid s kt) (PUBLICKEYS ! 2)],
                       SW = load_sw rd s b kt 2\<rparr>\<rparr>)
      else if auth_sw rd s b kt 2 = 0x9000 then
        (Inr 2, s\<lparr>mifare := \<lparr>sent = probe_history s b kt 3, SW = 0x9000\<rparr>\<rparr>)
      else if load_sw rd s b kt 3 \<noteq> 0x9000 then
        (Inl (GPError (load_sw rd s b kt 3)),
         s\<lparr>mifare := \<lparr>sent = probe_history s b kt 3 @ [loadKey_apdu (keyid s kt) (PUBLICKEYS ! 3)],
                       SW = load_sw rd s b kt 3\<rparr>\<rparr>)
      else if auth_sw rd s b kt 3 = 0x9000 then
        (Inr 3, s\<lparr>mifare := \<lparr>sent = probe_history s b kt 4, SW = 0x9000\<rparr>\<rparr>)
      else
        (Inr (- 1), s\<lparr>mifare := \<lparr>sent = probe_history s b kt 4, SW = auth_sw rd s b kt 3\<rparr>\<rparr>))"
proof -
  have n: "(0::nat) + 1 = 1" "(1::nat) + 1 = 2" "(2::nat) + 1 = 3" "(3::nat) + 1 = 4"
    by simp_all
  show ?thesis
    unfolding authenticatePublic_def
    by (simp add: authenticatePublic_from_step [of 0] authenticatePublic_from_step [of 1]
        authenticatePublic_from_step [of 2] authenticatePublic_from_step [of 3]
        authenticatePublic_from_end n Let_def load_sw_def auth_sw_def probe_history_simps
        del: One_nat_def)
qed

text \<open>
  C5, amended: \<open>authenticatePublic\<close> goes through the four public keys in table
  order, loading each under the sector's key id for the key type and then
  authenticating. Let \<open>i\<close> be the first candidate whose Load Key is refused or
  whose authentication succeeds (\<open>i = 4\<close> if there is none, so that every
  candidate was loaded and failed to authenticate). If the Load Key of candidate
  \<open>i\<close> is refused the call fails with that transport error and nothing is sent
  after it; otherwise it returns \<open>i\<close>, having sent nothing after the successful
  authentication; and it returns \<open>-1\<close> after all four candidates failed.
\<close>

theorem authenticatePublic_first_success:
  assumes "i \<le> 4"
    and "\<forall>j<i. load_sw rd s b kt j = 0x9000 \<and> auth_sw rd s b kt j \<noteq> 0x9000"
    and "i < 4 \<longrightarrow> load_sw rd s b kt i \<noteq> 0x9000 \<or> auth_sw rd s b kt i = 0x9000"
  shows "authenticatePublic rd b kt s =
     (if i = 4 then
        (Inr (- 1), s\<lparr>mifare := \<lparr>sent = probe_history s b kt 4, SW = auth_sw rd s b kt 3\<rparr>\<rparr>)
      else if load_sw rd s b kt i \<noteq> 0x9000 then
        (Inl (GPError (load_sw rd s b kt i)),
         s\<lparr>mifare := \<lparr>sent = probe_history s b kt i @ [loadKey_apdu (keyid s kt) (PUBLICKEYS ! i)],
                       SW = load_sw rd s b kt i\<rparr>\<rparr>)
      else
        (Inr (int i), s\<lparr>mifare := \<lparr>sent = probe_history s b kt (Suc i), SW = 0x9000\<rparr>\<rparr>))"
proof -
  have n: "Suc 0 = 1" "Suc 1 = 2" "Suc 2 = 3" "Suc 3 = 4"
    by simp_all
  from assms(1) have "i \<in> {0, 1, 2, 3, 4}"
    by (rule le_4_cases)
  then show ?thesis
  proof (elim insertE emptyE)
    assume i: "i = 0"
    with assms(3) show ?thesis
      by (auto simp add: authenticatePublic_unrolled n simp del: One_nat_def)
  next
    assume i: "i = 1"
    with assms(2) have "load_sw rd s b kt 0 = 0x9000" "auth_sw rd s b kt 0 \<noteq> 0x9000"
      by auto
    with i assms(3) show ?thesis
      by (auto simp add: authenticatePublic_unrolled n simp del: One_nat_def)
  next
    assume i: "i = 2"
    with assms(2) have "load_sw rd s b kt 0 = 0x9000" "auth_sw rd s b kt 0 \<noteq> 0x9000"
      "load_sw rd s b kt 1 = 0x9000" "auth_sw rd s b kt 1 \<noteq> 0x9000"
      by auto
    with i assms(3) show ?thesis
      by (auto simp add: authenticatePublic_unrolled n simp del: One_nat_def)
  next
    assume i: "i = 3"
    with assms(2) have "load_sw rd s b kt 0 = 0x9000" "auth_sw rd s b kt 0 \<noteq> 0x9000"
      "load_sw rd s b kt 1 = 0x9000" "auth_sw rd s b kt 1 \<noteq> 0x9000"
      "load_sw rd s b kt 2 = 0x9000" "auth_sw rd s b kt 2 \<noteq> 0x9000"
      by auto
    with i assms(3) show ?thesis
      by (auto simp add: authenticatePublic_unrolled n simp del: One_nat_def)
  next
    assume i: "i = 4"
    with assms(2) have "load_sw rd s b kt 0 = 0x9000" "auth_sw rd s b kt 0 \<noteq> 0x9000"
      "load_sw rd s b kt 1 = 0x9000" "auth_sw rd s b kt 1 \<noteq> 0x9000"
      "load_sw rd s b kt 2 = 0x9000" "auth_sw rd s b kt 2 \<noteq> 0x9000"
      "load_sw rd s b kt 3 = 0x9000" "auth_sw rd s b kt 3 \<noteq> 0x9000"
      by auto
    with i show ?thesis
      by (simp add: authenticatePublic_unrolled)
  qed
qed

theorem authenticatePublic_first_success_witness:
  "authenticatePublic example_reader 0 KEY_A example_sector =
     (Inr 1, example_sector\<lparr>mifare :=
        \<lparr>sent = [loadKey_apdu 0 [0xFF, 0xFF, 0xFF, 0xFF, 0xFF, 0xFF], authenticate_apdu 4 KEY_A 0,
                 loadKey_apdu 0 [0xA0, 0xA1, 0xA2, 0xA3, 0xA4, 0xA5], authenticate_apdu 4 KEY_A 0],
         SW = 0x9000\<rparr>\<rparr>)"
proof -
  have k: "keyid example_sector KEY_A = 0" "sent (mifare example_sector) = []"
    "blockoffs example_sector 0 = 4"
    by (simp_all add: example_sector_def newSector_def blockoffs_def js_shl_def shift_count_def
        ToInt32_def)
  have a: "ins (authenticate_apdu 4 KEY_A 0) = 0x86" "ins (loadKey_apdu 0 key) = 0x82"
    "body (loadKey_apdu 0 key) = Data key" for key
    by (simp_all add: authenticate_apdu_def loadKey_apdu_def)
  have p: "PUBLICKEYS ! 0 = [0xFF, 0xFF, 0xFF, 0xFF, 0xFF, 0xFF]"
    "PUBLICKEYS ! 1 = [0xA0, 0xA1, 0xA2, 0xA3, 0xA4, 0xA5]"
    by (simp_all add: PUBLICKEYS_def)
  have sw: "load_sw example_reader example_sector 0 KEY_A 0 = 0x9000"
    "auth_sw example_reader example_sector 0 KEY_A 0 = 0x6300"
    "load_sw example_reader example_sector 0 KEY_A 1 = 0x9000"
    "auth_sw example_reader example_sector 0 KEY_A 1 = 0x9000"
    by (simp_all add: load_sw_def auth_sw_def probe_history_simps k a p example_reader_def
        del: One_nat_def)
  show ?thesis
    using authenticatePublic_first_success [of 1 example_reader example_sector 0 KEY_A]
    by (simp add: sw probe_history_simps k p del: One_nat_def)
qed

text \<open>
  C5, as stated: for every block index and key type \<open>authenticatePublic\<close>
  returns the index of the first key that authenticates, or \<open>-1\<close> if all four
  fail. This fails on a reader that refuses the Load Key command: no candidate
  can authenticate, yet the call does not return \<open>-1\<close>; it fails with the
  transport error after the first Load Key, and the other three candidates are
  never tried.
\<close>

theorem authenticatePublic_load_rejected_counterexample:
  "auth_sw locked_reader example_sector 0 KEY_A 0 \<noteq> 0x9000 \<and>
   auth_sw locked_reader example_sector 0 KEY_A 1 \<noteq> 0x9000 \<and>
   auth_sw locked_reader example_sector 0 KEY_A 2 \<noteq> 0x9000 \<and>
   auth_sw locked_reader example_sector 0 KEY_A 3 \<noteq> 0x9000 \<and>
   authenticatePublic locked_reader 0 KEY_A example_sector =
     (Inl (GPError 0x6982), example_sector\<lparr>mifare :=
        \<lparr>sent = [loadKey_apdu 0 [0xFF, 0xFF, 0xFF, 0xFF, 0xFF, 0xFF]], SW = 0x6982\<rparr>\<rparr>)"
proof -
  have k: "keyid example_sector KEY_A = 0" "sent (mifare example_sector) = []"
    by (simp_all add: example_sector_def newSector_def)
  have p: "PUBLICKEYS ! 0 = [0xFF, 0xFF, 0xFF, 0xFF, 0xFF, 0xFF]"
    by (simp add: PUBLICKEYS_def)
  show ?thesis
    by (simp add: authenticatePublic_unrolled load_sw_def auth_sw_def locked_reader_def
        probe_history_simps k p)
qed

lemma read_result:
  assumes "0 \<le> i" and "i \<le> 3"
  shows "read rd i t =
     (let a = readBlock_apdu (blockoffs t i);
          ans = rd (sent (mifare t)) a;
          cd' = \<lparr>sent = sent (mifare t) @ [a], SW = snd ans\<rparr>
      in if snd ans = 0x9000
         then (Inr (fst ans), t\<lparr>mifare := cd', blocks := (blocks t)(i \<mapsto> fst ans)\<rparr>)
         else (Inl (GPError (snd ans)), t\<lparr>mifare := cd'\<rparr>))"
  using assms by (simp add: read_def readBlock_def sendApdu_checked Let_def)

lemma readAll_from_step:
  assumes "0 \<le> i" and "i \<le> 3"
  shows "readAll_from rd i bb t =
     (let a = readBlock_apdu (blockoffs t i);
          ans = rd (sent (mifare t)) a;
          cd' = \<lparr>sent = sent (mifare t) @ [a], SW = snd ans\<rparr>
      in if snd ans = 0x9000
         then readAll_from rd (i + 1) (bb @ fst ans)
                (t\<lparr>mifare := cd', blocks := (blocks t)(i \<mapsto> fst ans)\<rparr>)
         else (Inl (GPError (snd ans)), t\<lparr>mifare := cd'\<rparr>))"
  using assms
  by (subst readAll_from.simps) (simp add: read_result Let_def)

lemma readAll_from_end: "readAll_from rd 4 bb t = (Inr bb, t)"
  by (subst readAll_from.simps) simp

lemma read_history_simps:
  "read_history s kt 0 = sent (mifare s) @ [authenticate_apdu (blockoffs s 0) kt (keyid s kt)]"
  "read_history s kt 1 = sent (mifare s) @ [authenticate_apdu (blockoffs s 0) kt (keyid s kt),
     readBlock_apdu (blockoffs s 0)]"
  "read_history s kt 2 = sent (mifare s) @ [authenticate_apdu (blockoffs s 0) kt (keyid s kt),
     readBlock_apdu (blockoffs s 0), readBlock_apdu (blockoffs s 1)]"
  "read_history s kt 3 = sent (mifare s) @ [authenticate_apdu (blockoffs s 0) kt (keyid s kt),
     readBlock_apdu (blockoffs s 0), readBlock_apdu (blockoffs s 1), readBlock_apdu (blockoffs s 2)]"
  "read_history s kt 4 = sent (mifare s) @ [authenticate_apdu (blockoffs s 0) kt (keyid s kt),
     readBlock_apdu (blockoffs s 0), readBlock_apdu (blockoffs s 1), readBlock_apdu (blockoffs s 2),
     readBlock_apdu (blockoffs s 3)]"
  by (simp_all add: read_history_def readAll_apdus_def numeral_eq_Suc)

lemma readAll_unrolled:
  "readAll rd keytype s =
     (let kt = (case keytype of None \<Rightarrow> KEY_A | Some k \<Rightarrow> k);
          a0 = read_answer rd s kt 0; a1 = read_answer rd s kt 1;
          a2 = read_answer rd s kt 2; a3 = read_answer rd s kt 3
      in if snd a0 \<noteq> 0x9000 then
           (Inl (GPError (snd a0)),
            s\<lparr>mifare := \<lparr>sent = read_history s kt 0 @ [readBlock_apdu (blockoffs s 0)],
                          SW = snd a0\<rparr>\<rparr>)
         else if snd a1 \<noteq> 0x9000 then
           (Inl (GPError (snd a1)),
            s\<lparr>mifare := \<lparr>sent = read_history s kt 1 @ [readBlock_apdu (blockoffs s 1)],
                          SW = snd a1\<rparr>,
              blocks := (blocks s)(0 \<mapsto> fst a0)\<rparr>)
         else if snd a2 \<noteq> 0x9000 then
           (Inl (GPError (snd a2)),
            s\<lparr>mifare := \<lparr>sent = read_history s kt 2 @ [readBlock_apdu (blockoffs s 2)],
                          SW = snd a2\<rparr>,
              blocks := (blocks s)(0 \<mapsto> fst a0, 1 \<mapsto> fst a1)\<rparr>)
         else if snd a3 \<noteq> 0x9000 then
           (Inl (GPError (snd a3)),
            s\<lparr>mifare := \<lparr>sent = read_history s kt 3 @ [readBlock_apdu (blockoffs s 3)],
                          SW = snd a3\<rparr>,
              blocks := (blocks s)(0 \<mapsto> fst a0, 1 \<mapsto> fst a1, 2 \<mapsto> fst a2)\<rparr>)
         else
           (Inr (fst a0 @ fst a1 @ fst a2 @ fst a3),
            s\<lparr>mifare := \<lparr>sent = read_history s kt 4, SW = 0x9000\<rparr>,
              blocks := (blocks s)(0 \<mapsto> fst a0, 1 \<mapsto> fst a1, 2 \<mapsto> fst a2, 3 \<mapsto> fst a3)\<rparr>))"
proof -
  have n: "(0::int) + 1 = 1" "(1::int) + 1 = 2" "(2::int) + 1 = 3" "(3::int) + 1 = 4"
    by simp_all
  show ?thesis
    unfolding readAll_def
    by (simp add: Sector_authenticate_result readAll_from_step [of 0] readAll_from_step [of 1]
        readAll_from_step [of 2] readAll_from_step [of 3] readAll_from_end n Let_def
        read_answer_def read_history_simps del: One_nat_def)
qed

lemma blockoffs_eq:
  assumes "0 \<le> no s" and "no s < 536870912"
  shows "blockoffs s b = no s * 4 + b"
proof -
  have "js_shl (ToInt32 (no s)) 2 = word_of_int (no s * 4)"
    by (simp add: js_shl_def shift_count_def ToInt32_def push_bit_eq_mult)
  moreover have "sint (word_of_int (no s * 4) :: int32) = no s * 4"
  proof -
    have "- (2 ^ 31) \<le> no s * 4" "no s * 4 < 2 ^ 31"
      using assms by simp_all
    then have "signed_take_bit 31 (no s * 4) = no s * 4"
      by (rule signed_take_bit_int_eq_self)
    moreover have "sint (word_of_int (no s * 4) :: int32) =
        signed_take_bit (LENGTH(32) - 1) (no s * 4)"
      by (rule sint_sbintrunc')
    ultimately show ?thesis
      by simp
  qed
  ultimately show ?thesis
    by (simp add: blockoffs_def)
qed

lemma read_answers_all:
  assumes "\<forall>j<k. snd (read_answer rd s kt j) = 0x9000"
  shows "0 < k \<Longrightarrow> snd (read_answer rd s kt 0) = 0x9000"
    "1 < k \<Longrightarrow> snd (read_answer rd s kt 1) = 0x9000"
    "2 < k \<Longrightarrow> snd (read_answer rd s kt 2) = 0x9000"
    "3 < k \<Longrightarrow> snd (read_answer rd s kt 3) = 0x9000"
  using assms by auto

text \<open>
  C6, amended: for a sector number in range, let \<open>k\<close> be the first block offset
  whose Read Binary is answered with a status word other than \<open>0x9000\<close>
  (\<open>k = 4\<close> if all four reads are accepted). \<open>readAll\<close> (Key A when the key type
  is omitted) sends one General Authenticate against absolute block
  \<open>sector * 4 + 0\<close>, then the reads of block offsets 0, 1, ... in order with no
  authentication in between, up to and including offset \<open>k\<close>. If all four reads
  are accepted it returns the four blocks concatenated in that order; otherwise
  it fails with the transport error of read \<open>k\<close> and issues no further read.
\<close>

theorem readAll_trace:
  assumes "0 \<le> no s" and "no s < 536870912"
    and "kt = (case keytype of None \<Rightarrow> KEY_A | Some x \<Rightarrow> x)"
    and "k \<le> 4"
    and "\<forall>j<k. snd (read_answer rd s kt j) = 0x9000"
    and "k < 4 \<longrightarrow> snd (read_answer rd s kt k) \<noteq> 0x9000"
  shows "fst (readAll rd keytype s) =
       (if k = 4 then Inr (fst (read_answer rd s kt 0) @ fst (read_answer rd s kt 1) @
                           fst (read_answer rd s kt 2) @ fst (read_answer rd s kt 3))
        else Inl (GPError (snd (read_answer rd s kt k)))) \<and>
     sent (mifare (snd (readAll rd keytype s))) =
       sent (mifare s) @ authenticate_apdu (no s * 4 + 0) kt (keyid s kt) #
         map (\<lambda>j. readBlock_apdu (no s * 4 + j)) (take (Suc k) [0, 1, 2, 3])"
proof -
  note b = blockoffs_eq [OF assms(1,2)]
  note r = read_answers_all [OF assms(5)]
  from assms(4) have "k \<in> {0, 1, 2, 3, 4}"
    by (rule le_4_cases)
  then show ?thesis
  proof (elim insertE emptyE)
    assume "k = 0"
    with assms(6) show ?thesis
      by (simp add: readAll_unrolled assms(3) [symmetric] Let_def read_history_simps b
          del: One_nat_def)
  next
    assume "k = 1"
    with assms(6) r show ?thesis
      by (simp add: readAll_unrolled assms(3) [symmetric] Let_def read_history_simps b
          del: One_nat_def)
  next
    assume "k = 2"
    with assms(6) r show ?thesis
      by (simp add: readAll_unrolled assms(3) [symmetric] Let_def read_history_simps b
          del: One_nat_def)
  next
    assume "k = 3"
    with assms(6) r show ?thesis
      by (simp add: readAll_unrolled assms(3) [symmetric] Let_def read_history_simps b
          del: One_nat_def)
  next
    assume "k = 4"
    with r show ?thesis
      by (simp add: readAll_unrolled assms(3) [symmetric] Let_def read_history_simps b
          del: One_nat_def)
  qed
qed

lemma lt_4_iff: "(k < 4) = (k = 0 \<or> k = 1 \<or> k = 2 \<or> k = (3::nat))"
  by auto

lemma ex_lt_4: "(\<exists>k<4. Q k) = (Q 0 \<or> Q 1 \<or> Q 2 \<or> Q (3::nat))"
  unfolding lt_4_iff by blast

lemma all_lt_4: "(\<forall>k<4. Q k) = (Q 0 \<and> Q 1 \<and> Q 2 \<and> Q (3::nat))"
  unfolding lt_4_iff by blast

lemma example_sector_simps:
  "keyid example_sector KEY_A = 0" "sent (mifare example_sector) = []" "no example_sector = 1"
  "blockoffs example_sector b = 4 + b"
  by (simp_all add: example_sector_def newSector_def blockoffs_def js_shl_def shift_count_def
      ToInt32_def)

lemma readBlock_apdu_simps:
  "ins (readBlock_apdu b) = 0xB0"
  "p2 (readBlock_apdu 4) = 4" "p2 (readBlock_apdu 5) = 5"
  "p2 (readBlock_apdu 6) = 6" "p2 (readBlock_apdu 7) = 7"
  by (simp_all add: readBlock_apdu_def ToInt32_def)

lemma example_read_answers:
  "read_answer example_reader example_sector kt 0 = (replicate 16 4, 0x9000)"
  "read_answer example_reader example_sector kt 1 = (replicate 16 5, 0x9000)"
  "read_answer example_reader example_sector kt 2 = (replicate 16 6, 0x9000)"
  "read_answer example_reader example_sector kt 3 = (replicate 16 7, 0x9000)"
  by (simp_all add: read_answer_def example_reader_def example_sector_simps readBlock_apdu_simps
      byte_of_def)

theorem readAll_trace_witness:
  "fst (readAll example_reader None example_sector) =
     Inr (replicate 16 4 @ replicate 16 5 @ replicate 16 6 @ replicate 16 7) \<and>
   sent (mifare (snd (readAll example_reader None example_sector))) =
     [authenticate_apdu 4 KEY_A 0, readBlock_apdu 4, readBlock_apdu 5, readBlock_apdu 6,
      readBlock_apdu 7]"
proof -
  have "\<forall>j<4. snd (read_answer example_reader example_sector KEY_A j) = 0x9000"
    unfolding all_lt_4 by (simp add: example_read_answers del: One_nat_def)
  then show ?thesis
    using readAll_trace [of example_sector KEY_A None 4 example_reader]
    by (simp add: example_sector_simps example_read_answers del: One_nat_def)
qed

text \<open>
  C6, as stated: for every sector \<open>readAll\<close> issues one authentication and then
  exactly four reads, and returns the four blocks concatenated. This fails on a
  reader that accepts the authentication and refuses to read: \<open>readAll\<close>
  issues a single read and returns nothing.
\<close>

theorem readAll_read_rejected_counterexample:
  "readAll unreadable_reader None example_sector =
     (Inl (GPError 0x6982), example_sector\<lparr>mifare :=
        \<lparr>sent = [authenticate_apdu 4 KEY_A 0, readBlock_apdu 4], SW = 0x6982\<rparr>\<rparr>)"
  by (simp add: readAll_unrolled Let_def read_answer_def read_history_simps example_sector_simps
      unreadable_reader_def readBlock_apdu_simps)

text \<open>
  C10, amended: \<open>readAll\<close> never looks at the result of its authentication
  call. Whatever status word the authentication gets, the read of block offset 0
  is sent right after it; if the four reads are answered with \<open>0x9000\<close>,
  \<open>readAll\<close> issues all four and returns their concatenation, also when the
  authentication returned false; and the only failure \<open>readAll\<close> can report
  is the transport error of a read that was answered with another status word,
  never the failed authentication.
\<close>

theorem readAll_ignores_authentication:
  assumes "kt = (case keytype of None \<Rightarrow> KEY_A | Some x \<Rightarrow> x)"
  shows "(\<exists>rest. sent (mifare (snd (readAll rd keytype s))) =
            sent (mifare s) @ [authenticate_apdu (blockoffs s 0) kt (keyid s kt),
                               readBlock_apdu (blockoffs s 0)] @ rest) \<and>
         ((\<forall>k<4. snd (read_answer rd s kt k) = 0x9000) \<longrightarrow>
            fst (readAll rd keytype s) =
              Inr (fst (read_answer rd s kt 0) @ fst (read_answer rd s kt 1) @
                   fst (read_answer rd s kt 2) @ fst (read_answer rd s kt 3)) \<and>
            sent (mifare (snd (readAll rd keytype s))) = read_history s kt 4) \<and>
         (\<forall>e. fst (readAll rd keytype s) = Inl e \<longrightarrow>
            (\<exists>k<4. snd (read_answer rd s kt k) \<noteq> 0x9000 \<and>
                   e = GPError (snd (read_answer rd s kt k))))"
proof (intro conjI)
  show "\<exists>rest. sent (mifare (snd (readAll rd keytype s))) =
      sent (mifare s) @ [authenticate_apdu (blockoffs s 0) kt (keyid s kt),
                         readBlock_apdu (blockoffs s 0)] @ rest"
    by (simp add: readAll_unrolled assms [symmetric] Let_def read_history_simps
        del: One_nat_def)
next
  show "(\<forall>k<4. snd (read_answer rd s kt k) = 0x9000) \<longrightarrow>
      fst (readAll rd keytype s) =
        Inr (fst (read_answer rd s kt 0) @ fst (read_answer rd s kt 1) @
             fst (read_answer rd s kt 2) @ fst (read_answer rd s kt 3)) \<and>
      sent (mifare (snd (readAll rd keytype s))) = read_history s kt 4"
  proof
    assume a: "\<forall>k<4. snd (read_answer rd s kt k) = 0x9000"
    show "fst (readAll rd keytype s) =
        Inr (fst (read_answer rd s kt 0) @ fst (read_answer rd s kt 1) @
             fst (read_answer rd s kt 2) @ fst (read_answer rd s kt 3)) \<and>
      sent (mifare (snd (readAll rd keytype s))) = read_history s kt 4"
      using read_answers_all [OF a]
      by (simp add: readAll_unrolled assms [symmetric] Let_def)
  qed
next
  show "\<forall>e. fst (readAll rd keytype s) = Inl e \<longrightarrow>
      (\<exists>k<4. snd (read_answer rd s kt k) \<noteq> 0x9000 \<and> e = GPError (snd (read_answer rd s kt k)))"
  proof (intro allI impI)
    fix e assume e: "fst (readAll rd keytype s) = Inl e"
    from e show "\<exists>k<4. snd (read_answer rd s kt k) \<noteq> 0x9000 \<and>
        e = GPError (snd (read_answer rd s kt k))"
      unfolding ex_lt_4
      by (auto simp add: readAll_unrolled assms [symmetric] Let_def split: if_splits
          simp del: One_nat_def)
  qed
qed

theorem readAll_ignores_authentication_witness:
  "fst (Sector_authenticate example_reader 0 KEY_A example_sector) = Inr False \<and>
   fst (readAll example_reader None example_sector) =
     Inr (replicate 16 4 @ replicate 16 5 @ replicate 16 6 @ replicate 16 7) \<and>
   sent (mifare (snd (readAll example_reader None example_sector))) =
     [authenticate_apdu 4 KEY_A 0, readBlock_apdu 4, readBlock_apdu 5, readBlock_apdu 6,
      readBlock_apdu 7]"
proof -
  have au: "ins (authenticate_apdu 4 KEY_A 0) = 0x86"
    by (simp add: authenticate_apdu_def)
  have "\<forall>j<4. snd (read_answer example_reader example_sector KEY_A j) = 0x9000"
    unfolding all_lt_4 by (simp add: example_read_answers del: One_nat_def)
  then show ?thesis
    using readAll_ignores_authentication [of KEY_A None example_reader example_sector]
    by (simp add: example_sector_simps example_read_answers read_history_simps
        Sector_authenticate_result example_reader_def au del: One_nat_def)
qed

text \<open>
  C10, as stated: when authentication returns false, \<open>readAll\<close> still issues
  all four block reads rather than aborting. This fails on a reader that,
  having refused the authentication, refuses the read of block offset 0 as a
  card does: \<open>readAll\<close> aborts after that single read.
\<close>

theorem readAll_failed_authentication_counterexample:
  "fst (Sector_authenticate locked_reader 0 KEY_B example_sector) = Inr False \<and>
   readAll locked_reader (Some KEY_B) example_sector =
     (Inl (GPError 0x6982), example_sector\<lparr>mifare :=
        \<lparr>sent = [authenticate_apdu 4 KEY_B 1, readBlock_apdu 4], SW = 0x6982\<rparr>\<rparr>)"
proof -
  have k: "keyid example_sector KEY_B = 1"
    by (simp add: example_sector_def newSector_def)
  show ?thesis
    by (simp add: readAll_unrolled Let_def read_answer_def read_history_simps
        example_sector_simps k locked_reader_def Sector_authenticate_result)
qed


end
